theory Spec2Isabelle
  imports Complex_Main "HOL-Library.Multiset"
begin

section \<open>Smart-meter simulator and gateway relay\<close>

text \<open>
  A shallow embedding of \<^verbatim>\<open>edge_simulation/simulator.py\<close> and
  \<^verbatim>\<open>edge_simulation/gateway_relay.py\<close>. Python floats are read as real numbers
  and Python integers as \<open>int\<close>. Everything a function takes from its surroundings is an
  argument of the model: the state of the \<^verbatim>\<open>random\<close> module is threaded through the
  calls, and the value \<^verbatim>\<open>time.time()\<close> returns is an argument of the call that reads it.
  An exception is a value of type \<open>error\<close>.
\<close>

datatype error = ValueError | ZeroDivisionError

subsection \<open>The random module\<close>

text \<open>
  The five functions of Python's \<^verbatim>\<open>random\<close> module that the code calls, over a state
  \<open>'g\<close> of the generator. They are library code, so they are parameters of the model.
\<close>

record 'g random_source =
  rnd_seed :: "int \<Rightarrow> 'g"
  rnd_random :: "'g \<Rightarrow> real \<times> 'g"
  rnd_uniform :: "real \<Rightarrow> real \<Rightarrow> 'g \<Rightarrow> real \<times> 'g"
  rnd_randint :: "int \<Rightarrow> int \<Rightarrow> 'g \<Rightarrow> (error + int) \<times> 'g"
  rnd_gauss :: "real \<Rightarrow> real \<Rightarrow> 'g \<Rightarrow> real \<times> 'g"

text \<open>
  What the library documents of them: \<^verbatim>\<open>random()\<close> lies in \<open>[0, 1)\<close>,
  \<^verbatim>\<open>uniform(a, b)\<close> lies between its arguments, \<^verbatim>\<open>randint(a, b)\<close> lies in
  \<open>[a, b]\<close> and raises ValueError on an empty range. Nothing bounds \<^verbatim>\<open>gauss\<close>.
\<close>

definition random_in_range :: "'g random_source \<Rightarrow> bool" where
  "random_in_range R = (\<forall>g. 0 \<le> fst (rnd_random R g) \<and> fst (rnd_random R g) < 1)"

definition uniform_in_range :: "'g random_source \<Rightarrow> bool" where
  "uniform_in_range R =
     (\<forall>a b g. min a b \<le> fst (rnd_uniform R a b g) \<and> fst (rnd_uniform R a b g) \<le> max a b)"

definition randint_in_range :: "'g random_source \<Rightarrow> bool" where
  "randint_in_range R =
     (\<forall>a b g. if b < a then fst (rnd_randint R a b g) = Inl ValueError
              else (case fst (rnd_randint R a b g) of Inl e \<Rightarrow> False | Inr n \<Rightarrow> a \<le> n \<and> n \<le> b))"

text \<open>
  A random source that replays a list of numbers, for running the model on an example.
  The head \<open>n\<close> of the list decides the next result: \<^verbatim>\<open>random()\<close> is
  \<open>(n mod 1000) / 1000\<close>, and a standard normal sample is \<open>(n - 500) / 1000\<close>; an
  empty list goes on with \<open>n = 0\<close>. Seeding with \<open>s\<close> makes the next eight numbers
  \<open>\<bar>s\<bar>\<close>.
\<close>

definition replay_next :: "nat list \<Rightarrow> nat \<times> nat list" where
  "replay_next g = (case g of [] \<Rightarrow> (0, []) | n # ns \<Rightarrow> (n, ns))"

definition replay_unit :: "nat \<Rightarrow> real" where
  "replay_unit n = real (n mod 1000) / 1000"

definition replay_source :: "(nat list) random_source" where
  "replay_source =
     \<lparr> rnd_seed = (\<lambda>s. let n = nat \<bar>s\<bar> in [n, n, n, n, n, n, n, n]),
       rnd_random = (\<lambda>g. let (n, g') = replay_next g in (replay_unit n, g')),
       rnd_uniform = (\<lambda>a b g. let (n, g') = replay_next g in (a + (b - a) * replay_unit n, g')),
       rnd_randint = (\<lambda>a b g. let (n, g') = replay_next g in
                        (if b < a then Inl ValueError else Inr (a + int n mod (b - a + 1)), g')),
       rnd_gauss = (\<lambda>mu sigma g. let (n, g') = replay_next g in
                        (mu + ((real n - 500) / 1000) * sigma, g')) \<rparr>"

subsection \<open>Simulator configuration\<close>

record SimulatorConfig =
  pole_id :: string
  num_meters :: int
  meter_id_prefix :: string
  sample_interval_seconds :: real
  sample_hz :: real
  voltage_nominal :: real
  voltage_noise_std :: real
  sag_threshold :: real
  swell_threshold :: real
  sag_probability :: real
  sag_depth_min :: real
  sag_depth_max :: real
  sag_duration_min :: int
  sag_duration_max :: int
  base_load_kw :: real
  peak_morning_kw :: real
  peak_evening_kw :: real
  midday_kw :: real
  night_kw :: real
  noise_factor :: real
  meter_factor_min :: real
  meter_factor_max :: real
  pf_min :: real
  pf_max :: real
  pf_default :: real
  freq_nominal :: real
  freq_variation :: real
  force_sag_interval :: int
  stdout_events :: bool

subsection \<open>The load curve\<close>

text \<open>Python's \<^verbatim>\<open>x % y\<close> on floats, for a positive \<open>y\<close>: the result has the sign of \<open>y\<close>.\<close>

definition float_mod :: "real \<Rightarrow> real \<Rightarrow> real" where
  "float_mod x y = x - y * of_int \<lfloor>x / y\<rfloor>"

definition get_load_curve_factor :: "SimulatorConfig \<Rightarrow> real \<Rightarrow> real" where
  "get_load_curve_factor cfg hour0 =
     (let hour = float_mod hour0 24 in
      if 0 \<le> hour \<and> hour < 5 then night_kw cfg
      else if 5 \<le> hour \<and> hour < 6 then
        (let t = hour - 5 in night_kw cfg + t * (peak_morning_kw cfg - night_kw cfg))
      else if 6 \<le> hour \<and> hour < 9 then peak_morning_kw cfg
      else if 9 \<le> hour \<and> hour < 10 then
        (let t = hour - 9 in peak_morning_kw cfg - t * (peak_morning_kw cfg - midday_kw cfg))
      else if 10 \<le> hour \<and> hour < 16 then midday_kw cfg
      else if 16 \<le> hour \<and> hour < 17 then
        (let t = hour - 16 in midday_kw cfg + t * (peak_evening_kw cfg - midday_kw cfg))
      else if 17 \<le> hour \<and> hour < 21 then peak_evening_kw cfg
      else if 21 \<le> hour \<and> hour < 22 then
        (let t = hour - 21 in peak_evening_kw cfg - t * (peak_evening_kw cfg - night_kw cfg))
      else night_kw cfg)"

text \<open>
  The curve as the specification words it: plateaus, and between two plateaus the linear
  interpolation from the value left of the ramp to the value right of it, keyed by the
  fraction of the ramp that has passed.
\<close>

definition interpolate :: "real \<Rightarrow> real \<Rightarrow> real \<Rightarrow> real" where
  "interpolate a b t = (1 - t) * a + t * b"

definition spec_load_curve :: "SimulatorConfig \<Rightarrow> real \<Rightarrow> real" where
  "spec_load_curve cfg h =
     (if h < 5 then night_kw cfg
      else if h < 6 then interpolate (night_kw cfg) (peak_morning_kw cfg) ((h - 5) / (6 - 5))
      else if h < 9 then peak_morning_kw cfg
      else if h < 10 then interpolate (peak_morning_kw cfg) (midday_kw cfg) ((h - 9) / (10 - 9))
      else if h < 16 then midday_kw cfg
      else if h < 17 then interpolate (midday_kw cfg) (peak_evening_kw cfg) ((h - 16) / (17 - 16))
      else if h < 21 then peak_evening_kw cfg
      else if h < 22 then interpolate (peak_evening_kw cfg) (night_kw cfg) ((h - 21) / (22 - 21))
      else night_kw cfg)"

text \<open>The configuration of the defaults of \<^verbatim>\<open>from_yaml\<close>.\<close>

definition default_config :: SimulatorConfig where
  "default_config =
     \<lparr> pole_id = ''pole_A'', num_meters = 10, meter_id_prefix = ''m'',
       sample_interval_seconds = 30, sample_hz = 1 / 30,
       voltage_nominal = 240, voltage_noise_std = 3, sag_threshold = 220,
       swell_threshold = 260, sag_probability = 1 / 1000,
       sag_depth_min = 10, sag_depth_max = 30, sag_duration_min = 3, sag_duration_max = 15,
       base_load_kw = 1 / 2, peak_morning_kw = 5 / 2, peak_evening_kw = 4, midday_kw = 1,
       night_kw = 2 / 5, noise_factor = 15 / 100, meter_factor_min = 7 / 10,
       meter_factor_max = 3 / 2, pf_min = 85 / 100, pf_max = 99 / 100, pf_default = 95 / 100,
       freq_nominal = 60, freq_variation = 5 / 100, force_sag_interval = 0,
       stdout_events = False \<rparr>"

subsection \<open>Meter state and readings\<close>

record MeterState =
  meter_id :: string
  meter_pole_id :: string
  seq :: int
  meter_factor :: real
  power_factor :: real
  in_sag :: bool
  sag_remaining_seconds :: int
  sag_depth :: real

text \<open>The fields of a \<^verbatim>\<open>datetime\<close> that the simulator reads or prints.\<close>

record datetime =
  dt_year :: nat
  dt_month :: nat
  dt_day :: nat
  dt_hour :: nat
  dt_minute :: nat
  dt_second :: nat
  dt_microsecond :: nat

text \<open>
  The dictionary \<^verbatim>\<open>generate_reading\<close> returns. \<open>event_ts\<close> holds the timestamp whose
  ISO-8601 text the dictionary carries.
\<close>

record Reading =
  event_ts :: datetime
  reading_meter_id :: string
  reading_pole_id :: string
  reading_seq :: int
  voltage_v :: real
  current_a :: real
  power_kw :: real
  reactive_kvar :: real
  freq_hz :: real
  quality_flags :: "string list"

text \<open>
  Python's \<^verbatim>\<open>round(x, n)\<close>: the nearest multiple of \<open>10\<^sup>-\<^sup>n\<close>, a tie going to the
  even neighbour.
\<close>

definition round_half_even :: "real \<Rightarrow> int" where
  "round_half_even y =
     (let f = \<lfloor>y\<rfloor>; d = y - of_int f in
      if d < 1 / 2 then f else if 1 / 2 < d then f + 1 else if even f then f else f + 1)"

definition py_round :: "real \<Rightarrow> nat \<Rightarrow> real" where
  "py_round x n = of_int (round_half_even (x * 10 ^ n)) / 10 ^ n"

subsection \<open>The sag state machine\<close>

text \<open>
  \<open>last_force_sag_time\<close> is the simulator's attribute of that name; \<open>now\<close> is what
  \<^verbatim>\<open>time.time()\<close> returns if the call reads the clock. The result carries the new
  value of the attribute and the new state of the random module.
\<close>

definition should_start_sag ::
  "'g random_source \<Rightarrow> SimulatorConfig \<Rightarrow> real \<Rightarrow> MeterState \<Rightarrow> real \<Rightarrow> 'g \<Rightarrow> bool \<times> real \<times> 'g" where
  "should_start_sag R cfg last_force_sag_time meter now g =
     (if in_sag meter then (False, last_force_sag_time, g)
      else if 0 < force_sag_interval cfg
              \<and> of_int (force_sag_interval cfg) \<le> now - last_force_sag_time
           then (True, now, g)
      else (let (u, g1) = rnd_random R g in (u < sag_probability cfg, last_force_sag_time, g1)))"

definition update_sag_state ::
  "'g random_source \<Rightarrow> SimulatorConfig \<Rightarrow> real \<Rightarrow> MeterState \<Rightarrow> real \<Rightarrow> 'g
     \<Rightarrow> error + (real \<times> MeterState \<times> real \<times> 'g)" where
  "update_sag_state R cfg last_force_sag_time meter now g =
     (if in_sag meter then
        (let meter1 = meter\<lparr>sag_remaining_seconds := sag_remaining_seconds meter - 1\<rparr> in
         if sag_remaining_seconds meter1 \<le> 0
         then Inr (0, meter1\<lparr>in_sag := False, sag_depth := 0\<rparr>, last_force_sag_time, g)
         else Inr (- sag_depth meter1, meter1, last_force_sag_time, g))
      else
        (let (start, last1, g1) = should_start_sag R cfg last_force_sag_time meter now g in
         if start then
           (let (depth, g2) = rnd_uniform R (sag_depth_min cfg) (sag_depth_max cfg) g1;
                meter1 = meter\<lparr>in_sag := True, sag_depth := depth\<rparr>;
                (duration, g3) = rnd_randint R (sag_duration_min cfg) (sag_duration_max cfg) g2
            in case duration of
                 Inl e \<Rightarrow> Inl e
               | Inr n \<Rightarrow> Inr (- sag_depth meter1, meter1\<lparr>sag_remaining_seconds := n\<rparr>, last1, g3))
         else Inr (0, meter, last1, g1)))"

subsection \<open>Generating a reading\<close>

text \<open>
  The current: the division raises ZeroDivisionError when its divisor is zero.
\<close>

definition current_of :: "real \<Rightarrow> real \<Rightarrow> real \<Rightarrow> error + real" where
  "current_of voltage p_kw pf =
     (if 0 < voltage \<and> 0 < p_kw then
        (if voltage * pf = 0 then Inl ZeroDivisionError
         else Inr ((p_kw * 1000) / (voltage * pf)))
      else Inr 0)"

text \<open>
  The reactive power: \<^verbatim>\<open>math.acos\<close> raises ValueError outside \<open>[-1, 1]\<close>.
\<close>

definition reactive_of :: "real \<Rightarrow> real \<Rightarrow> error + real" where
  "reactive_of p_kw pf =
     (if pf < - 1 \<or> 1 < pf then Inl ValueError
      else (let pf_angle = arccos pf in Inr (p_kw * tan pf_angle)))"

definition quality_flags_of :: "SimulatorConfig \<Rightarrow> real \<Rightarrow> string list" where
  "quality_flags_of cfg voltage =
     (if voltage < sag_threshold cfg then [''voltage_sag'']
      else if swell_threshold cfg < voltage then [''voltage_swell'']
      else [])"

text \<open>
  The local variables of \<^verbatim>\<open>generate_reading\<close> when it reaches its return statement.
\<close>

record reading_locals =
  loc_base_power :: real
  loc_power_noise :: real
  loc_voltage_noise :: real
  loc_sag_adjustment :: real
  loc_voltage_v :: real
  loc_current_a :: real
  loc_power_kw :: real
  loc_reactive_kvar :: real
  loc_freq_hz :: real
  loc_quality_flags :: "string list"

text \<open>
  The body of \<^verbatim>\<open>generate_reading\<close> up to its return statement, in the order the source
  evaluates it.
\<close>

definition reading_values ::
  "'g random_source \<Rightarrow> SimulatorConfig \<Rightarrow> real \<Rightarrow> MeterState \<Rightarrow> datetime \<Rightarrow> real \<Rightarrow> 'g
     \<Rightarrow> error + (reading_locals \<times> MeterState \<times> real \<times> 'g)" where
  "reading_values R cfg last_force_sag_time meter timestamp now g =
     (let hour = real (dt_hour timestamp) + real (dt_minute timestamp) / 60
                   + real (dt_second timestamp) / 3600;
          base_power = get_load_curve_factor cfg hour;
          (noise1, g1) = rnd_gauss R 0 (noise_factor cfg) g;
          power_noise = 1 + noise1;
          p_kw = max 0 (base_power * meter_factor meter * power_noise);
          (voltage_noise, g2) = rnd_gauss R 0 (voltage_noise_std cfg) g1
      in case update_sag_state R cfg last_force_sag_time meter now g2 of
           Inl e \<Rightarrow> Inl e
         | Inr (sag_adjustment, meter1, last1, g3) \<Rightarrow>
             (let voltage = voltage_nominal cfg + voltage_noise + sag_adjustment;
                  flags = quality_flags_of cfg voltage
              in case current_of voltage p_kw (power_factor meter1) of
                   Inl e \<Rightarrow> Inl e
                 | Inr current \<Rightarrow>
                     (case reactive_of p_kw (power_factor meter1) of
                        Inl e \<Rightarrow> Inl e
                      | Inr reactive \<Rightarrow>
                          (let (noise3, g4) = rnd_gauss R 0 (freq_variation cfg) g3;
                               freq = freq_nominal cfg + noise3;
                               meter2 = meter1\<lparr>seq := seq meter1 + 1\<rparr>
                           in Inr (\<lparr> loc_base_power = base_power,
                                     loc_power_noise = power_noise,
                                     loc_voltage_noise = voltage_noise,
                                     loc_sag_adjustment = sag_adjustment,
                                     loc_voltage_v = voltage, loc_current_a = current,
                                     loc_power_kw = p_kw, loc_reactive_kvar = reactive,
                                     loc_freq_hz = freq, loc_quality_flags = flags \<rparr>,
                                   meter2, last1, g4)))))"

text \<open>The return statement: the dictionary, its numbers rounded.\<close>

definition reading_dict :: "datetime \<Rightarrow> MeterState \<Rightarrow> reading_locals \<Rightarrow> Reading" where
  "reading_dict timestamp meter v =
     \<lparr> event_ts = timestamp,
       reading_meter_id = meter_id meter,
       reading_pole_id = meter_pole_id meter,
       reading_seq = seq meter,
       voltage_v = py_round (loc_voltage_v v) 2,
       current_a = py_round (loc_current_a v) 3,
       power_kw = py_round (loc_power_kw v) 3,
       reactive_kvar = py_round (loc_reactive_kvar v) 3,
       freq_hz = py_round (loc_freq_hz v) 3,
       quality_flags = loc_quality_flags v \<rparr>"

definition generate_reading ::
  "'g random_source \<Rightarrow> SimulatorConfig \<Rightarrow> real \<Rightarrow> MeterState \<Rightarrow> datetime \<Rightarrow> real \<Rightarrow> 'g
     \<Rightarrow> error + (Reading \<times> MeterState \<times> real \<times> 'g)" where
  "generate_reading R cfg last_force_sag_time meter timestamp now g =
     (case reading_values R cfg last_force_sag_time meter timestamp now g of
        Inl e \<Rightarrow> Inl e
      | Inr (v, meter2, last1, g4) \<Rightarrow> Inr (reading_dict timestamp meter2 v, meter2, last1, g4))"

text \<open>
  One meter read on successive ticks. Each call has its own surroundings (the forced-sag
  attribute, the timestamp, the clock, the state of the random module), since calls for
  other meters come between two calls for this one. The result lists, tick by tick, the
  reading and the state of the meter after it; an exception ends the run.
\<close>

fun meter_ticks ::
  "'g random_source \<Rightarrow> SimulatorConfig \<Rightarrow> MeterState \<Rightarrow> (real \<times> datetime \<times> real \<times> 'g) list
     \<Rightarrow> error + (Reading \<times> MeterState) list" where
  "meter_ticks R cfg meter [] = Inr []"
| "meter_ticks R cfg meter ((last_t, timestamp, now, g) # envs) =
     (case generate_reading R cfg last_t meter timestamp now g of
        Inl e \<Rightarrow> Inl e
      | Inr (reading, meter1, last1, g1) \<Rightarrow>
          (case meter_ticks R cfg meter1 envs of
             Inl e \<Rightarrow> Inl e
           | Inr trace \<Rightarrow> Inr ((reading, meter1) # trace)))"

text \<open>The state of a meter as the dataclass defaults leave it.\<close>

definition new_meter :: "string \<Rightarrow> string \<Rightarrow> real \<Rightarrow> real \<Rightarrow> MeterState" where
  "new_meter mid pid mf pf =
     \<lparr> meter_id = mid, meter_pole_id = pid, seq = 0, meter_factor = mf, power_factor = pf,
       in_sag = False, sag_remaining_seconds = 0, sag_depth = 0 \<rparr>"

subsection \<open>The simulator\<close>

record MeterSimulator =
  config :: SimulatorConfig
  meters :: "MeterState list"
  last_force_sag_time :: real
  readings_since_sag :: int

text \<open>The format \<^verbatim>\<open>{i:04d}\<close>: the decimal digits, padded with zeros to four.\<close>

fun decimal :: "nat \<Rightarrow> string" where
  "decimal n = (if n < 10 then [''0123456789'' ! n]
                else decimal (n div 10) @ [''0123456789'' ! (n mod 10)])"

definition format_04d :: "nat \<Rightarrow> string" where
  "format_04d i = replicate (4 - length (decimal i)) CHR ''0'' @ decimal i"

text \<open>The loop of the constructor over \<^verbatim>\<open>range(config.num_meters)\<close>.\<close>

fun make_meters :: "'g random_source \<Rightarrow> SimulatorConfig \<Rightarrow> nat list \<Rightarrow> 'g \<Rightarrow> MeterState list \<times> 'g" where
  "make_meters R cfg [] g = ([], g)"
| "make_meters R cfg (i # rest) g =
     (let mid = meter_id_prefix cfg @ ''_'' @ pole_id cfg @ ''_'' @ format_04d i;
          (mf, g1) = rnd_uniform R (meter_factor_min cfg) (meter_factor_max cfg) g;
          (pf, g2) = rnd_uniform R (pf_min cfg) (pf_max cfg) g1;
          meter = new_meter mid (pole_id cfg) mf pf;
          (others, g3) = make_meters R cfg rest g2
      in (meter # others, g3))"

text \<open>
  The constructor. \<open>g0\<close> is the state the random module is in when the constructor is
  called; a seed replaces it. \<open>now\<close> is the clock at construction.
\<close>

definition MeterSimulator_init ::
  "'g random_source \<Rightarrow> SimulatorConfig \<Rightarrow> int option \<Rightarrow> real \<Rightarrow> 'g \<Rightarrow> MeterSimulator \<times> 'g" where
  "MeterSimulator_init R cfg seed now g0 =
     (let g = (case seed of None \<Rightarrow> g0 | Some s \<Rightarrow> rnd_seed R s);
          (ms, g1) = make_meters R cfg [0 ..< nat (num_meters cfg)] g
      in (\<lparr> config = cfg, meters = ms, last_force_sag_time = now, readings_since_sag = 0 \<rparr>, g1))"

text \<open>
  \<^verbatim>\<open>generate_batch\<close>: one reading for each meter, in order. \<open>clock i\<close> is what
  \<^verbatim>\<open>time.time()\<close> returns while meter \<open>i\<close> is read.
\<close>

fun batch_loop ::
  "'g random_source \<Rightarrow> SimulatorConfig \<Rightarrow> datetime \<Rightarrow> (nat \<Rightarrow> real) \<Rightarrow> nat \<Rightarrow> real
     \<Rightarrow> MeterState list \<Rightarrow> 'g \<Rightarrow> error + (Reading list \<times> MeterState list \<times> real \<times> 'g)" where
  "batch_loop R cfg timestamp clock i last_t [] g = Inr ([], [], last_t, g)"
| "batch_loop R cfg timestamp clock i last_t (meter # rest) g =
     (case generate_reading R cfg last_t meter timestamp (clock i) g of
        Inl e \<Rightarrow> Inl e
      | Inr (reading, meter1, last1, g1) \<Rightarrow>
          (case batch_loop R cfg timestamp clock (Suc i) last1 rest g1 of
             Inl e \<Rightarrow> Inl e
           | Inr (readings, meters1, last2, g2) \<Rightarrow>
               Inr (reading # readings, meter1 # meters1, last2, g2)))"

definition generate_batch ::
  "'g random_source \<Rightarrow> MeterSimulator \<Rightarrow> datetime \<Rightarrow> (nat \<Rightarrow> real) \<Rightarrow> 'g
     \<Rightarrow> error + (Reading list \<times> MeterSimulator \<times> 'g)" where
  "generate_batch R sim timestamp clock g =
     (case batch_loop R (config sim) timestamp clock 0 (last_force_sag_time sim) (meters sim) g of
        Inl e \<Rightarrow> Inl e
      | Inr (readings, meters1, last1, g1) \<Rightarrow>
          Inr (readings, sim\<lparr>meters := meters1, last_force_sag_time := last1\<rparr>, g1))"

text \<open>
  \<^verbatim>\<open>stream_readings\<close>: the cycles of its loop that take place before it stops. A
  cycle is the timestamp \<^verbatim>\<open>datetime.now()\<close> returns for it and the clock during it.
\<close>

fun stream_readings ::
  "'g random_source \<Rightarrow> MeterSimulator \<Rightarrow> (datetime \<times> (nat \<Rightarrow> real)) list \<Rightarrow> 'g
     \<Rightarrow> error + (Reading list \<times> MeterSimulator \<times> 'g)" where
  "stream_readings R sim [] g = Inr ([], sim, g)"
| "stream_readings R sim ((timestamp, clock) # cycles) g =
     (case generate_batch R sim timestamp clock g of
        Inl e \<Rightarrow> Inl e
      | Inr (readings, sim1, g1) \<Rightarrow>
          (case stream_readings R sim1 cycles g1 of
             Inl e \<Rightarrow> Inl e
           | Inr (later, sim2, g2) \<Rightarrow> Inr (readings @ later, sim2, g2)))"

text \<open>A run of the simulator: construction, then the cycles. The result is what it yields.\<close>

definition simulator_run ::
  "'g random_source \<Rightarrow> SimulatorConfig \<Rightarrow> int option \<Rightarrow> real \<Rightarrow> 'g
     \<Rightarrow> (datetime \<times> (nat \<Rightarrow> real)) list \<Rightarrow> error + Reading list" where
  "simulator_run R cfg seed now g0 cycles =
     (let (sim, g) = MeterSimulator_init R cfg seed now g0
      in case stream_readings R sim cycles g of
           Inl e \<Rightarrow> Inl e
         | Inr (readings, sim1, g1) \<Rightarrow> Inr readings)"

subsection \<open>The gateway relay\<close>

record NetworkProfile =
  name :: string
  latency_ms_min :: int
  latency_ms_max :: int
  jitter_ms :: int
  drop_prob :: real
  reorder_prob :: real

definition get_latency_ms :: "'g random_source \<Rightarrow> NetworkProfile \<Rightarrow> 'g \<Rightarrow> (error + int) \<times> 'g" where
  "get_latency_ms R profile g =
     (let (base, g1) = rnd_randint R (latency_ms_min profile) (latency_ms_max profile) g
      in case base of
           Inl e \<Rightarrow> (Inl e, g1)
         | Inr b \<Rightarrow>
             (let (jitter, g2) = rnd_randint R (- jitter_ms profile) (jitter_ms profile) g1
              in case jitter of
                   Inl e \<Rightarrow> (Inl e, g2)
                 | Inr j \<Rightarrow> (Inr (max 1 (b + j)), g2)))"

definition should_drop :: "'g random_source \<Rightarrow> NetworkProfile \<Rightarrow> 'g \<Rightarrow> bool \<times> 'g" where
  "should_drop R profile g = (let (u, g1) = rnd_random R g in (u < drop_prob profile, g1))"

definition should_reorder :: "'g random_source \<Rightarrow> NetworkProfile \<Rightarrow> 'g \<Rightarrow> bool \<times> 'g" where
  "should_reorder R profile g = (let (u, g1) = rnd_random R g in (u < reorder_prob profile, g1))"

record GatewayStats =
  messages_received :: int
  messages_published :: int
  messages_dropped :: int
  messages_reordered :: int
  publish_errors :: int
  start_time :: real

definition record_received :: "int \<Rightarrow> GatewayStats \<Rightarrow> GatewayStats" where
  "record_received cnt st = st\<lparr>messages_received := messages_received st + cnt\<rparr>"

definition record_published :: "int \<Rightarrow> GatewayStats \<Rightarrow> GatewayStats" where
  "record_published cnt st = st\<lparr>messages_published := messages_published st + cnt\<rparr>"

definition record_dropped :: "int \<Rightarrow> GatewayStats \<Rightarrow> GatewayStats" where
  "record_dropped cnt st = st\<lparr>messages_dropped := messages_dropped st + cnt\<rparr>"

definition record_reordered :: "int \<Rightarrow> GatewayStats \<Rightarrow> GatewayStats" where
  "record_reordered cnt st = st\<lparr>messages_reordered := messages_reordered st + cnt\<rparr>"

definition record_error :: "int \<Rightarrow> GatewayStats \<Rightarrow> GatewayStats" where
  "record_error cnt st = st\<lparr>publish_errors := publish_errors st + cnt\<rparr>"

text \<open>
  The relay. \<open>sink\<close> lists the messages handed to \<^verbatim>\<open>publisher.publish\<close>, the oldest
  first: the Pub/Sub client is outside the program, and the calls made to it are what the
  program does to it. The reorder buffer holds, for each delayed message, the time it was
  queued at.
\<close>

record 'm GatewayRelay =
  project_id :: string
  topic_name :: string
  topic_path :: string
  network_profile :: NetworkProfile
  stats :: GatewayStats
  reorder_buffer :: "(real \<times> 'm) list"
  reorder_delay_seconds :: real
  shutdown_set :: bool
  sink :: "'m list"

definition GatewayRelay_init :: "string \<Rightarrow> string \<Rightarrow> NetworkProfile \<Rightarrow> real \<Rightarrow> 'm GatewayRelay" where
  "GatewayRelay_init project topic profile now =
     \<lparr> project_id = project, topic_name = topic,
       topic_path = ''projects/'' @ project @ ''/topics/'' @ topic,
       network_profile = profile,
       stats = \<lparr> messages_received = 0, messages_published = 0, messages_dropped = 0,
                 messages_reordered = 0, publish_errors = 0, start_time = now \<rparr>,
       reorder_buffer = [], reorder_delay_seconds = 2, shutdown_set = False, sink = [] \<rparr>"

text \<open>
  The callback of an asynchronous publish, run by the client when the delivery is
  confirmed (\<open>ok\<close>) or has failed.
\<close>

definition publish_callback :: "bool \<Rightarrow> 'm GatewayRelay \<Rightarrow> 'm GatewayRelay" where
  "publish_callback ok relay =
     (if ok then relay\<lparr>stats := record_published 1 (stats relay)\<rparr>
      else relay\<lparr>stats := record_error 1 (stats relay)\<rparr>)"

definition do_publish :: "'m \<Rightarrow> 'm GatewayRelay \<Rightarrow> 'm GatewayRelay" where
  "do_publish message relay = relay\<lparr>sink := sink relay @ [message]\<rparr>"

text \<open>The drain pass. \<open>now\<close> is read from the clock once, before the loop.\<close>

function process_reorder_buffer :: "real \<Rightarrow> 'm GatewayRelay \<Rightarrow> 'm GatewayRelay" where
  "process_reorder_buffer now relay =
     (case reorder_buffer relay of
        [] \<Rightarrow> relay
      | (msg_time, message) # rest \<Rightarrow>
          if reorder_delay_seconds relay \<le> now - msg_time
          then process_reorder_buffer now (do_publish message (relay\<lparr>reorder_buffer := rest\<rparr>))
          else relay)"
  by pat_completeness auto
termination
  by (relation "measure (\<lambda>(now, relay). length (reorder_buffer relay))") (auto simp: do_publish_def)

declare process_reorder_buffer.simps [simp del]

text \<open>
  \<^verbatim>\<open>publish\<close>. \<open>t_append\<close> is the clock when the message is put into the reorder
  buffer, \<open>t_drain\<close> the clock when the drain pass starts. An exception leaves the relay
  as it is at that moment.
\<close>

definition publish ::
  "'g random_source \<Rightarrow> 'm \<Rightarrow> real \<Rightarrow> real \<Rightarrow> 'm GatewayRelay \<Rightarrow> 'g
     \<Rightarrow> (error + bool) \<times> 'm GatewayRelay \<times> 'g" where
  "publish R message t_append t_drain relay g =
     (let relay1 = relay\<lparr>stats := record_received 1 (stats relay)\<rparr>;
          (dropped, g1) = should_drop R (network_profile relay1) g
      in if dropped
         then (Inr False, relay1\<lparr>stats := record_dropped 1 (stats relay1)\<rparr>, g1)
         else
           (let (latency, g2) = get_latency_ms R (network_profile relay1) g1
            in case latency of
                 Inl e \<Rightarrow> (Inl e, relay1, g2)
               | Inr latency_ms \<Rightarrow>
                   (let (reorder, g3) = should_reorder R (network_profile relay1) g2;
                        relay2 =
                          (if reorder
                           then relay1\<lparr>stats := record_reordered 1 (stats relay1),
                                       reorder_buffer := reorder_buffer relay1 @ [(t_append, message)]\<rparr>
                           else do_publish message relay1)
                    in (Inr True, process_reorder_buffer t_drain relay2, g3))))"

text \<open>
  A sequence of \<^verbatim>\<open>publish\<close> calls, as the loops of \<^verbatim>\<open>publish_batch\<close> and
  \<^verbatim>\<open>run_with_simulator\<close> make them: each call with its message and its two clock
  readings. The result lists what the calls returned; an exception ends the sequence.
\<close>

fun publish_calls ::
  "'g random_source \<Rightarrow> ('m \<times> real \<times> real) list \<Rightarrow> 'm GatewayRelay \<Rightarrow> 'g
     \<Rightarrow> (error + bool list) \<times> 'm GatewayRelay \<times> 'g" where
  "publish_calls R [] relay g = (Inr [], relay, g)"
| "publish_calls R ((message, t_append, t_drain) # rest) relay g =
     (case publish R message t_append t_drain relay g of
        (Inl e, relay1, g1) \<Rightarrow> (Inl e, relay1, g1)
      | (Inr delivered, relay1, g1) \<Rightarrow>
          (case publish_calls R rest relay1 g1 of
             (Inl e, relay2, g2) \<Rightarrow> (Inl e, relay2, g2)
           | (Inr results, relay2, g2) \<Rightarrow> (Inr (delivered # results), relay2, g2)))"

definition publish_batch ::
  "'g random_source \<Rightarrow> ('m \<times> real \<times> real) list \<Rightarrow> 'm GatewayRelay \<Rightarrow> 'g
     \<Rightarrow> (error + int) \<times> 'm GatewayRelay \<times> 'g" where
  "publish_batch R messages relay g =
     (case publish_calls R messages relay g of
        (Inl e, relay1, g1) \<Rightarrow> (Inl e, relay1, g1)
      | (Inr results, relay1, g1) \<Rightarrow> (Inr (int (length (filter id results))), relay1, g1))"

function flush :: "'m GatewayRelay \<Rightarrow> 'm GatewayRelay" where
  "flush relay =
     (case reorder_buffer relay of
        [] \<Rightarrow> relay
      | (msg_time, message) # rest \<Rightarrow> flush (do_publish message (relay\<lparr>reorder_buffer := rest\<rparr>)))"
  by pat_completeness auto
termination
  by (relation "measure (\<lambda>relay. length (reorder_buffer relay))") (auto simp: do_publish_def)

declare flush.simps [simp del]

definition shutdown :: "'m GatewayRelay \<Rightarrow> 'm GatewayRelay" where
  "shutdown relay = flush (relay\<lparr>shutdown_set := True\<rparr>)"

subsection \<open>Loading the configuration\<close>

text \<open>
  The parsed YAML document, section by section. A key that the document does not have is
  \<open>None\<close>, and so is a section that it does not have. Values of another type than the
  key's, and sections written with a null value, are outside this type.
\<close>

record pole_section =
  y_pole_id :: "string option"
  y_num_meters :: "int option"
  y_meter_id_prefix :: "string option"

record sampling_section =
  y_preset :: "string option"
  y_sample_interval_seconds :: "real option"
  y_sample_hz :: "real option"

record voltage_section =
  y_nominal_v :: "real option"
  y_noise_std :: "real option"
  y_sag_threshold :: "real option"
  y_swell_threshold :: "real option"
  y_sag_probability :: "real option"
  y_sag_depth_min :: "real option"
  y_sag_depth_max :: "real option"
  y_sag_duration_min :: "int option"
  y_sag_duration_max :: "int option"

record power_section =
  y_base_load_kw :: "real option"
  y_peak_morning_kw :: "real option"
  y_peak_evening_kw :: "real option"
  y_midday_kw :: "real option"
  y_night_kw :: "real option"
  y_noise_factor :: "real option"
  y_meter_factor_min :: "real option"
  y_meter_factor_max :: "real option"

record reactive_section =
  y_power_factor_min :: "real option"
  y_power_factor_max :: "real option"
  y_power_factor_default :: "real option"

record frequency_section =
  y_nominal_hz :: "real option"
  y_variation_hz :: "real option"

record electrical_section =
  y_voltage :: "voltage_section option"
  y_power :: "power_section option"
  y_reactive :: "reactive_section option"
  y_frequency :: "frequency_section option"

record demo_section =
  y_force_sag_interval_seconds :: "int option"

record logging_section =
  y_stdout_events :: "bool option"

record config_dict =
  y_pole :: "pole_section option"
  y_sampling :: "sampling_section option"
  y_electrical :: "electrical_section option"
  y_demo :: "demo_section option"
  y_logging :: "logging_section option"

text \<open>\<^verbatim>\<open>d.get(key, default)\<close>, and the empty dictionary of each section.\<close>

definition dict_get :: "'a option \<Rightarrow> 'a \<Rightarrow> 'a" where
  "dict_get entry dflt = (case entry of None \<Rightarrow> dflt | Some x \<Rightarrow> x)"

definition no_pole :: pole_section where
  "no_pole = \<lparr> y_pole_id = None, y_num_meters = None, y_meter_id_prefix = None \<rparr>"

definition no_sampling :: sampling_section where
  "no_sampling = \<lparr> y_preset = None, y_sample_interval_seconds = None, y_sample_hz = None \<rparr>"

definition no_voltage :: voltage_section where
  "no_voltage =
     \<lparr> y_nominal_v = None, y_noise_std = None, y_sag_threshold = None, y_swell_threshold = None,
       y_sag_probability = None, y_sag_depth_min = None, y_sag_depth_max = None,
       y_sag_duration_min = None, y_sag_duration_max = None \<rparr>"

definition no_power :: power_section where
  "no_power =
     \<lparr> y_base_load_kw = None, y_peak_morning_kw = None, y_peak_evening_kw = None,
       y_midday_kw = None, y_night_kw = None, y_noise_factor = None,
       y_meter_factor_min = None, y_meter_factor_max = None \<rparr>"

definition no_reactive :: reactive_section where
  "no_reactive =
     \<lparr> y_power_factor_min = None, y_power_factor_max = None, y_power_factor_default = None \<rparr>"

definition no_frequency :: frequency_section where
  "no_frequency = \<lparr> y_nominal_hz = None, y_variation_hz = None \<rparr>"

definition no_electrical :: electrical_section where
  "no_electrical = \<lparr> y_voltage = None, y_power = None, y_reactive = None, y_frequency = None \<rparr>"

definition no_demo :: demo_section where
  "no_demo = \<lparr> y_force_sag_interval_seconds = None \<rparr>"

definition no_logging :: logging_section where
  "no_logging = \<lparr> y_stdout_events = None \<rparr>"

definition preset_intervals :: "string \<Rightarrow> real option" where
  "preset_intervals preset =
     (if preset = ''high_frequency'' then Some 30
      else if preset = ''standard'' then Some 300
      else if preset = ''low_frequency'' then Some 900
      else None)"

text \<open>
  \<^verbatim>\<open>SimulatorConfig.from_yaml\<close>. The interval is the explicit one or that of the
  preset; by the time the source looks at \<^verbatim>\<open>sample_hz\<close> the interval is no longer
  \<^verbatim>\<open>None\<close>, so that branch never runs. No value is compared with another.
\<close>

definition from_yaml :: "config_dict \<Rightarrow> SimulatorConfig" where
  "from_yaml doc =
     (let pole = dict_get (y_pole doc) no_pole;
          sampling = dict_get (y_sampling doc) no_sampling;
          electrical = dict_get (y_electrical doc) no_electrical;
          voltage = dict_get (y_voltage electrical) no_voltage;
          pwr = dict_get (y_power electrical) no_power;
          reactive = dict_get (y_reactive electrical) no_reactive;
          frequency = dict_get (y_frequency electrical) no_frequency;
          demo = dict_get (y_demo doc) no_demo;
          logging_conf = dict_get (y_logging doc) no_logging;
          preset = dict_get (y_preset sampling) ''high_frequency'';
          sample_interval =
            (case y_sample_interval_seconds sampling of
               None \<Rightarrow> dict_get (preset_intervals preset) 30
             | Some x \<Rightarrow> x)
      in \<lparr> pole_id = dict_get (y_pole_id pole) ''pole_A'',
           num_meters = dict_get (y_num_meters pole) 10,
           meter_id_prefix = dict_get (y_meter_id_prefix pole) ''m'',
           sample_interval_seconds = sample_interval,
           sample_hz = (if 0 < sample_interval then 1 / sample_interval else 1),
           voltage_nominal = dict_get (y_nominal_v voltage) 240,
           voltage_noise_std = dict_get (y_noise_std voltage) 3,
           sag_threshold = dict_get (y_sag_threshold voltage) 220,
           swell_threshold = dict_get (y_swell_threshold voltage) 260,
           sag_probability = dict_get (y_sag_probability voltage) (1 / 1000),
           sag_depth_min = dict_get (y_sag_depth_min voltage) 10,
           sag_depth_max = dict_get (y_sag_depth_max voltage) 30,
           sag_duration_min = dict_get (y_sag_duration_min voltage) 3,
           sag_duration_max = dict_get (y_sag_duration_max voltage) 15,
           base_load_kw = dict_get (y_base_load_kw pwr) (1 / 2),
           peak_morning_kw = dict_get (y_peak_morning_kw pwr) (5 / 2),
           peak_evening_kw = dict_get (y_peak_evening_kw pwr) 4,
           midday_kw = dict_get (y_midday_kw pwr) 1,
           night_kw = dict_get (y_night_kw pwr) (2 / 5),
           noise_factor = dict_get (y_noise_factor pwr) (15 / 100),
           meter_factor_min = dict_get (y_meter_factor_min pwr) (7 / 10),
           meter_factor_max = dict_get (y_meter_factor_max pwr) (3 / 2),
           pf_min = dict_get (y_power_factor_min reactive) (85 / 100),
           pf_max = dict_get (y_power_factor_max reactive) (99 / 100),
           pf_default = dict_get (y_power_factor_default reactive) (95 / 100),
           freq_nominal = dict_get (y_nominal_hz frequency) 60,
           freq_variation = dict_get (y_variation_hz frequency) (5 / 100),
           force_sag_interval = dict_get (y_force_sag_interval_seconds demo) 0,
           stdout_events = dict_get (y_stdout_events logging_conf) False \<rparr>)"

record profile_section =
  y_latency_ms_min :: "int option"
  y_latency_ms_max :: "int option"
  y_jitter_ms :: "int option"
  y_drop_prob :: "real option"
  y_reorder_prob :: "real option"

text \<open>\<^verbatim>\<open>NetworkProfile.from_config\<close>.\<close>

definition from_config :: "string \<Rightarrow> profile_section \<Rightarrow> NetworkProfile" where
  "from_config nm cfg =
     \<lparr> name = nm,
       latency_ms_min = dict_get (y_latency_ms_min cfg) 20,
       latency_ms_max = dict_get (y_latency_ms_max cfg) 100,
       jitter_ms = dict_get (y_jitter_ms cfg) 30,
       drop_prob = dict_get (y_drop_prob cfg) (1 / 1000),
       reorder_prob = dict_get (y_reorder_prob cfg) (1 / 1000) \<rparr>"

subsection \<open>The invariant of the sag state\<close>

text \<open>
  The data model's invariant: ticks remain if and only if the meter is in a sag, and the
  depth is zero if and only if it is not.
\<close>

definition sag_inv :: "MeterState \<Rightarrow> bool" where
  "sag_inv meter =
     ((0 < sag_remaining_seconds meter) = in_sag meter \<and> (sag_depth meter = 0) = (\<not> in_sag meter))"

subsection \<open>Example inputs\<close>

definition noon :: datetime where
  "noon = \<lparr> dt_year = 2025, dt_month = 12, dt_day = 26, dt_hour = 12, dt_minute = 0,
            dt_second = 0, dt_microsecond = 0 \<rparr>"

definition example_meter :: MeterState where
  "example_meter = new_meter ''m_pole_A_0000'' ''pole_A'' 1 (95 / 100)"

text \<open>
  Four ticks of one meter. The first draws a sag of depth 10 and duration 3; the numbers are
  what the replayed random source is asked for, in the order of the calls.
\<close>

definition sag_run :: "(real \<times> datetime \<times> real \<times> nat list) list" where
  "sag_run = [(0, noon, 0, [500, 500, 0, 0, 0, 500]), (0, noon, 30, [500, 500, 500]),
              (0, noon, 60, [500, 500, 500]), (0, noon, 90, [500, 500, 500])]"

text \<open>A configuration whose sags last zero ticks, and two ticks under it.\<close>

definition zero_duration_config :: SimulatorConfig where
  "zero_duration_config = default_config\<lparr>sag_duration_min := 0, sag_duration_max := 0\<rparr>"

definition zero_duration_run :: "(real \<times> datetime \<times> real \<times> nat list) list" where
  "zero_duration_run = [(0, noon, 0, [500, 500, 0, 0, 0, 500]), (0, noon, 30, [500, 500, 1, 500])]"


subsection \<open>States of the relay\<close>

text \<open>
  An entry of the reorder buffer is due when the reorder delay has passed since it was
  queued: its scheduled release time, the time it was queued at plus the delay, is not
  after \<open>now\<close>.
\<close>

definition is_due :: "real \<Rightarrow> real \<Rightarrow> real \<times> 'm \<Rightarrow> bool" where
  "is_due delay now entry = (delay \<le> now - fst entry)"


text \<open>A message that the relay has neither forwarded nor holds.\<close>

definition absent :: "'m \<Rightarrow> 'm GatewayRelay \<Rightarrow> bool" where
  "absent message relay = (message \<notin> set (sink relay) \<and> message \<notin> snd ` set (reorder_buffer relay))"

subsection \<open>Example inputs of the relay\<close>

definition busy_profile :: NetworkProfile where
  "busy_profile = \<lparr> name = ''satellite'', latency_ms_min = 20, latency_ms_max = 100, jitter_ms = 30,
                     drop_prob = 1 / 2, reorder_prob = 1 / 2 \<rparr>"

definition fresh_relay :: "string GatewayRelay" where
  "fresh_relay = GatewayRelay_init ''demo'' ''ami-meter-data'' busy_profile 0"

text \<open>A relay that holds one delayed message, queued at time 0.\<close>

definition waiting_relay :: "string GatewayRelay" where
  "waiting_relay = fresh_relay\<lparr>reorder_buffer := [(0, ''r1'')]\<rparr>"

text \<open>
  Three calls: the first message is delayed, the second dropped, the third delayed after
  the drain pass of its call has forwarded the first.
\<close>

definition three_calls :: "(string \<times> real \<times> real) list" where
  "three_calls = [(''r1'', 0, 0), (''r2'', 10, 10), (''r3'', 11, 11)]"


text \<open>A relay that drops every message, and draws that drop the first message only.\<close>

definition lossy_relay :: "string GatewayRelay" where
  "lossy_relay = GatewayRelay_init ''demo'' ''ami-meter-data'' (busy_profile\<lparr>drop_prob := 1\<rparr>) 0"

definition drop_draws :: "nat list" where
  "drop_draws = [100, 900, 0, 0, 900]"

subsection \<open>Example configurations\<close>

text \<open>A network profile whose latency range is inverted.\<close>

definition inverted_latency :: profile_section where
  "inverted_latency = \<lparr> y_latency_ms_min = Some 100, y_latency_ms_max = Some 20, y_jitter_ms = None,
                         y_drop_prob = None, y_reorder_prob = None \<rparr>"


text \<open>A document for two meters whose sag depth range is inverted.\<close>

definition inverted_depth_doc :: config_dict where
  "inverted_depth_doc =
     \<lparr> y_pole = Some (no_pole\<lparr>y_num_meters := Some 2\<rparr>),
       y_sampling = None,
       y_electrical = Some (no_electrical\<lparr>y_voltage :=
                        Some (no_voltage\<lparr>y_sag_depth_min := Some 30, y_sag_depth_max := Some 10\<rparr>)\<rparr>),
       y_demo = None, y_logging = None \<rparr>"

text \<open>A clock that stands still.\<close>

definition frozen_clock :: "nat \<Rightarrow> real" where
  "frozen_clock i = 0"

subsection \<open>What a run shows\<close>

text \<open>
  What a run shows of the simulator: the readings, the configuration, the meters and the
  state of the random module, but not the time of the last forced sag.
\<close>

definition shown ::
  "error + (Reading list \<times> MeterSimulator \<times> 'g)
     \<Rightarrow> error + (Reading list \<times> SimulatorConfig \<times> MeterState list \<times> 'g)" where
  "shown x = (case x of Inl e \<Rightarrow> Inl e
              | Inr (readings, sim, g) \<Rightarrow> Inr (readings, config sim, meters sim, g))"

subsection \<open>Example runs\<close>

text \<open>One meter; one meter with a forced sag every 60 seconds.\<close>

definition one_meter_config :: SimulatorConfig where
  "one_meter_config = default_config\<lparr>num_meters := 1\<rparr>"

definition forced_sag_config :: SimulatorConfig where
  "forced_sag_config = default_config\<lparr>num_meters := 1, force_sag_interval := 60\<rparr>"

text \<open>Six in the evening of the day of \<open>noon\<close>, and two clocks.\<close>

definition evening :: datetime where
  "evening = \<lparr> dt_year = 2025, dt_month = 12, dt_day = 26, dt_hour = 18, dt_minute = 0,
               dt_second = 0, dt_microsecond = 0 \<rparr>"

definition early_clock :: "nat \<Rightarrow> real" where
  "early_clock i = 10"

definition late_clock :: "nat \<Rightarrow> real" where
  "late_clock i = 100"

subsection \<open>Properties of the load curve\<close>

lemma float_mod_24_bounds: "0 \<le> float_mod x 24 \<and> float_mod x 24 < 24"
proof -
  have "of_int \<lfloor>x / 24\<rfloor> \<le> x / 24" and "x / 24 < of_int \<lfloor>x / 24\<rfloor> + 1"
    by linarith+
  then show ?thesis
    unfolding float_mod_def by (simp add: field_simps)
qed

lemma float_mod_24_id: "0 \<le> x \<Longrightarrow> x < 24 \<Longrightarrow> float_mod x 24 = x"
proof -
  assume "0 \<le> x" and "x < 24"
  then have "\<lfloor>x / 24\<rfloor> = 0"
    by (simp add: floor_eq_iff)
  then show ?thesis
    by (simp add: float_mod_def)
qed

lemma float_mod_24_idem: "float_mod (float_mod x 24) 24 = float_mod x 24"
  using float_mod_24_bounds [of x] by (simp add: float_mod_24_id)

lemma float_mod_24_shift: "float_mod (x + 24 * of_int k) 24 = float_mod x 24"
proof -
  have "(x + 24 * of_int k) / 24 = x / 24 + of_int k"
    by (simp add: field_simps)
  then have "\<lfloor>(x + 24 * of_int k) / 24\<rfloor> = \<lfloor>x / 24\<rfloor> + k"
    by (simp only: floor_add_int)
  then show ?thesis
    by (simp add: float_mod_def algebra_simps)
qed

text \<open>
  C5. For every hour in \<open>[0, 24)\<close> the load-curve function returns the piecewise-linear
  value of the specification: the night plateau on \<open>[0, 5)\<close>, the ramp to the morning peak on
  \<open>[5, 6)\<close>, the morning plateau on \<open>[6, 9)\<close>, the ramp to midday on \<open>[9, 10)\<close>, the midday
  plateau on \<open>[10, 16)\<close>, the ramp to the evening peak on \<open>[16, 17)\<close>, the evening plateau on
  \<open>[17, 21)\<close>, the ramp to night on \<open>[21, 22)\<close> and the night plateau on \<open>[22, 24)\<close>, each
  ramp being the linear interpolation between its two plateaus. The function reads nothing
  but its two arguments, so equal inputs give equal outputs.
\<close>

theorem load_curve_piecewise_linear:
  assumes "0 \<le> h" and "h < 24"
  shows "get_load_curve_factor cfg h = spec_load_curve cfg h"
proof -
  have "float_mod h 24 = h"
    using assms by (rule float_mod_24_id)
  then show ?thesis
    using assms
    by (simp add: get_load_curve_factor_def spec_load_curve_def interpolate_def Let_def
        algebra_simps)
qed

theorem load_curve_piecewise_linear_witness:
  "(0::real) \<le> 33 / 2 \<and> (33 / 2 :: real) < 24
   \<and> get_load_curve_factor default_config (33 / 2) = spec_load_curve default_config (33 / 2)
   \<and> get_load_curve_factor default_config (33 / 2) = 5 / 2"
proof -
  have "get_load_curve_factor default_config (33 / 2) = spec_load_curve default_config (33 / 2)"
    using load_curve_piecewise_linear [of "33 / 2" default_config] by simp
  moreover have "spec_load_curve default_config (33 / 2) = 5 / 2"
    by (simp add: spec_load_curve_def interpolate_def default_config_def)
  ultimately show ?thesis by simp
qed

text \<open>
  C10. The load-curve function is defined for every real hour, negative hours and hours of
  24 and more included, and returns there what it returns at the hour reduced modulo 24:
  the curve has period 24.
\<close>

theorem load_curve_periodic:
  "get_load_curve_factor cfg h = get_load_curve_factor cfg (float_mod h 24)
   \<and> get_load_curve_factor cfg (h + 24 * of_int k) = get_load_curve_factor cfg h"
  by (simp add: get_load_curve_factor_def float_mod_24_idem float_mod_24_shift)

subsection \<open>The replayed random source and rounding\<close>

lemmas run_simps = generate_reading_def reading_values_def reading_dict_def update_sag_state_def should_start_sag_def
   replay_source_def replay_next_def replay_unit_def default_config_def new_meter_def noon_def example_meter_def current_of_def reactive_of_def
   quality_flags_of_def get_load_curve_factor_def float_mod_def py_round_def round_half_even_def Let_def

lemma replay_random_in_range: "random_in_range replay_source"
  by (simp add: random_in_range_def replay_source_def replay_unit_def Let_def split_def)

lemma replay_unit_bounds: "0 \<le> replay_unit n \<and> replay_unit n < 1"
  by (simp add: replay_unit_def)

lemma between_min_max:
  fixes a b u :: real
  assumes "0 \<le> u" "u < 1"
  shows "min a b \<le> a + (b - a) * u \<and> a + (b - a) * u \<le> max a b"
proof (cases "a \<le> b")
  case True
  have "0 \<le> (b - a) * u"
    using assms True by simp
  moreover have "(b - a) * u \<le> b - a"
    using mult_left_mono [of u 1 "b - a"] assms True by simp
  ultimately show ?thesis
    using True by linarith
next
  case False
  have "(b - a) * u \<le> 0"
    using assms False by (simp add: mult_le_0_iff)
  moreover have "b - a \<le> (b - a) * u"
    using mult_left_mono_neg [of u 1 "b - a"] assms False by simp
  ultimately show ?thesis
    using False by linarith
qed

lemma replay_uniform_in_range: "uniform_in_range replay_source"
  using between_min_max replay_unit_bounds
  by (simp add: uniform_in_range_def replay_source_def Let_def split_def)

lemma mod_in_range:
  fixes a b n :: int
  assumes "a \<le> b"
  shows "a \<le> a + n mod (b - a + 1) \<and> a + n mod (b - a + 1) \<le> b"
proof -
  have "0 < b - a + 1" using assms by simp
  then have "0 \<le> n mod (b - a + 1)" "n mod (b - a + 1) < b - a + 1"
    by (rule pos_mod_sign, rule pos_mod_bound)
  then show ?thesis by simp
qed

lemma replay_randint_in_range: "randint_in_range replay_source"
  using mod_in_range
  by (simp add: randint_in_range_def replay_source_def Let_def split_def)

lemma round_half_even_bounds:
  "of_int (round_half_even y) \<le> y + 1 / 2 \<and> y - 1 / 2 \<le> of_int (round_half_even y)"
proof -
  define f where "f = \<lfloor>y\<rfloor>"
  have "of_int f \<le> y" "y < of_int f + 1"
    unfolding f_def by linarith+
  then show ?thesis
    unfolding round_half_even_def Let_def f_def [symmetric] by auto
qed



lemma py_round_close: "\<bar>py_round x n - x\<bar> \<le> 1 / (2 * 10 ^ n)"
proof -
  define r :: real where "r = of_int (round_half_even (x * 10 ^ n))"
  have pos: "(0::real) < 10 ^ n" by simp
  have "\<bar>r - x * 10 ^ n\<bar> \<le> 1 / 2"
    unfolding r_def using round_half_even_bounds [of "x * 10 ^ n"] by linarith
  then have "\<bar>r - x * 10 ^ n\<bar> / 10 ^ n \<le> (1 / 2) / 10 ^ n"
    using pos by (rule_tac divide_right_mono) simp_all
  moreover have "py_round x n - x = (r - x * 10 ^ n) / 10 ^ n"
    by (simp add: py_round_def r_def diff_divide_distrib)
  then have "\<bar>py_round x n - x\<bar> = \<bar>r - x * 10 ^ n\<bar> / 10 ^ n"
    by simp
  ultimately show ?thesis by simp
qed

subsection \<open>The sag state machine\<close>

lemma update_sag_state_in_sag:
  assumes "in_sag meter"
  shows "update_sag_state R cfg last_t meter now g =
           (if sag_remaining_seconds meter \<le> 1
            then Inr (0, meter\<lparr>sag_remaining_seconds := sag_remaining_seconds meter - 1,
                               in_sag := False, sag_depth := 0\<rparr>, last_t, g)
            else Inr (- sag_depth meter,
                      meter\<lparr>sag_remaining_seconds := sag_remaining_seconds meter - 1\<rparr>, last_t, g))"
  using assms by (simp add: update_sag_state_def Let_def)

lemma update_sag_state_start:
  assumes "\<not> in_sag meter"
    and "update_sag_state R cfg last_t meter now g = Inr (adj, meter1, last1, g1)"
    and "in_sag meter1"
  shows "\<exists>ga gb. fst (rnd_randint R (sag_duration_min cfg) (sag_duration_max cfg) gb)
                    = Inr (sag_remaining_seconds meter1)
           \<and> sag_depth meter1 = fst (rnd_uniform R (sag_depth_min cfg) (sag_depth_max cfg) ga)
           \<and> adj = - sag_depth meter1"
proof -
  define ga where "ga = snd (snd (should_start_sag R cfg last_t meter now g))"
  define gb where "gb = snd (rnd_uniform R (sag_depth_min cfg) (sag_depth_max cfg) ga)"
  have "fst (rnd_randint R (sag_duration_min cfg) (sag_duration_max cfg) gb)
          = Inr (sag_remaining_seconds meter1)
        \<and> sag_depth meter1 = fst (rnd_uniform R (sag_depth_min cfg) (sag_depth_max cfg) ga)
        \<and> adj = - sag_depth meter1"
    using assms unfolding ga_def gb_def
    by (auto simp: update_sag_state_def Let_def split_def split: if_splits sum.splits)
  then show ?thesis by blast
qed

lemma update_sag_state_idle:
  assumes "\<not> in_sag meter"
    and "update_sag_state R cfg last_t meter now g = Inr (adj, meter1, last1, g1)"
    and "\<not> in_sag meter1"
  shows "meter1 = meter \<and> adj = 0"
  using assms
  by (auto simp: update_sag_state_def Let_def split_def split: if_splits sum.splits)

lemma randint_result:
  assumes "randint_in_range R" and "fst (rnd_randint R a b g) = Inr n"
  shows "a \<le> n \<and> n \<le> b"
proof -
  have "if b < a then fst (rnd_randint R a b g) = Inl ValueError
        else (case fst (rnd_randint R a b g) of Inl e \<Rightarrow> False | Inr n \<Rightarrow> a \<le> n \<and> n \<le> b)"
    using assms(1) unfolding randint_in_range_def by blast
  then show ?thesis
    using assms(2) by (simp split: if_splits)
qed

lemma uniform_result:
  assumes "uniform_in_range R"
  shows "min a b \<le> fst (rnd_uniform R a b g) \<and> fst (rnd_uniform R a b g) \<le> max a b"
  using assms unfolding uniform_in_range_def by blast

lemma update_sag_state_inv:
  assumes "uniform_in_range R" and "randint_in_range R"
    and "1 \<le> sag_duration_min cfg" and "0 < sag_depth_min cfg" and "0 < sag_depth_max cfg"
    and "sag_inv meter"
    and "update_sag_state R cfg last_t meter now g = Inr (adj, meter1, last1, g1)"
  shows "sag_inv meter1"
proof (cases "in_sag meter")
  case True
  then show ?thesis
    using assms(6,7) by (auto simp: update_sag_state_in_sag sag_inv_def split: if_splits)
next
  case False
  show ?thesis
  proof (cases "in_sag meter1")
    case True
    obtain ga gb where n: "fst (rnd_randint R (sag_duration_min cfg) (sag_duration_max cfg) gb)
                    = Inr (sag_remaining_seconds meter1)"
      and d: "sag_depth meter1 = fst (rnd_uniform R (sag_depth_min cfg) (sag_depth_max cfg) ga)"
      using update_sag_state_start [OF False assms(7) True] by blast
    have "1 \<le> sag_remaining_seconds meter1"
      using randint_result [OF assms(2) n] assms(3) by simp
    moreover have "0 < sag_depth meter1"
      using uniform_result [OF assms(1), of "sag_depth_min cfg" "sag_depth_max cfg" ga] assms(4,5) d
      by linarith
    ultimately show ?thesis
      using True by (simp add: sag_inv_def)
  next
    case False
    then show ?thesis
      using update_sag_state_idle [OF \<open>\<not> in_sag meter\<close> assms(7) False] assms(6) by simp
  qed
qed

lemma reading_values_Inr:
  assumes "reading_values R cfg last_t meter timestamp now g = Inr (v, meter2, last1, g4)"
  shows "\<exists>g2 g3 meter1.
           update_sag_state R cfg last_t meter now g2 = Inr (loc_sag_adjustment v, meter1, last1, g3)
           \<and> meter2 = meter1\<lparr>seq := seq meter1 + 1\<rparr>
           \<and> loc_voltage_v v = voltage_nominal cfg + loc_voltage_noise v + loc_sag_adjustment v
           \<and> loc_power_kw v = max 0 (loc_base_power v * meter_factor meter * loc_power_noise v)
           \<and> current_of (loc_voltage_v v) (loc_power_kw v) (power_factor meter1) = Inr (loc_current_a v)
           \<and> reactive_of (loc_power_kw v) (power_factor meter1) = Inr (loc_reactive_kvar v)"
proof -
  define g2 where "g2 = snd (rnd_gauss R 0 (voltage_noise_std cfg)
                               (snd (rnd_gauss R 0 (noise_factor cfg) g)))"
  obtain adj meter1 la g3 where u: "update_sag_state R cfg last_t meter now g2 = Inr (adj, meter1, la, g3)"
    using assms unfolding g2_def
    by (auto simp: reading_values_def Let_def split_def split: sum.splits)
  have "update_sag_state R cfg last_t meter now g2 = Inr (loc_sag_adjustment v, meter1, last1, g3)
           \<and> meter2 = meter1\<lparr>seq := seq meter1 + 1\<rparr>
           \<and> loc_voltage_v v = voltage_nominal cfg + loc_voltage_noise v + loc_sag_adjustment v
           \<and> loc_power_kw v = max 0 (loc_base_power v * meter_factor meter * loc_power_noise v)
           \<and> current_of (loc_voltage_v v) (loc_power_kw v) (power_factor meter1) = Inr (loc_current_a v)
           \<and> reactive_of (loc_power_kw v) (power_factor meter1) = Inr (loc_reactive_kvar v)"
    using assms u unfolding g2_def
    by (auto simp: reading_values_def Let_def split_def split: sum.splits)
  then show ?thesis by blast
qed


lemma generate_reading_Inr:
  assumes "generate_reading R cfg last_t meter timestamp now g = Inr (r, meter2, last1, g4)"
  shows "\<exists>v. reading_values R cfg last_t meter timestamp now g = Inr (v, meter2, last1, g4)
             \<and> r = reading_dict timestamp meter2 v"
  using assms by (auto simp: generate_reading_def split: sum.splits)

lemma generate_reading_sag_inv:
  assumes "uniform_in_range R" and "randint_in_range R"
    and "1 \<le> sag_duration_min cfg" and "0 < sag_depth_min cfg" and "0 < sag_depth_max cfg"
    and "sag_inv meter"
    and "generate_reading R cfg last_t meter timestamp now g = Inr (r, meter2, last1, g4)"
  shows "sag_inv meter2"
proof -
  obtain v where "reading_values R cfg last_t meter timestamp now g = Inr (v, meter2, last1, g4)"
    using generate_reading_Inr [OF assms(7)] by blast
  from reading_values_Inr [OF this] obtain g2 g3 meter1 where
    u: "update_sag_state R cfg last_t meter now g2 = Inr (loc_sag_adjustment v, meter1, last1, g3)"
    and m: "meter2 = meter1\<lparr>seq := seq meter1 + 1\<rparr>"
    by blast
  have "sag_inv meter1"
    using update_sag_state_inv [OF assms(1-6) u] .
  then show ?thesis
    by (simp add: m sag_inv_def)
qed

text \<open>What one tick does to a meter in a sag.\<close>

lemma generate_reading_in_sag:
  assumes "in_sag meter"
    and "generate_reading R cfg last_t meter timestamp now g = Inr (r, meter2, last1, g4)"
  shows "sag_remaining_seconds meter2 = sag_remaining_seconds meter - 1
         \<and> in_sag meter2 = (1 < sag_remaining_seconds meter)"
proof -
  obtain v where "reading_values R cfg last_t meter timestamp now g = Inr (v, meter2, last1, g4)"
    using generate_reading_Inr [OF assms(2)] by blast
  from reading_values_Inr [OF this] obtain g2 g3 meter1 where
    u: "update_sag_state R cfg last_t meter now g2 = Inr (loc_sag_adjustment v, meter1, last1, g3)"
    and m: "meter2 = meter1\<lparr>seq := seq meter1 + 1\<rparr>"
    by blast
  show ?thesis
    using u assms(1) by (auto simp: m update_sag_state_in_sag split: if_splits)
qed

lemma generate_reading_duration:
  assumes "randint_in_range R" and "\<not> in_sag meter"
    and "generate_reading R cfg last_t meter timestamp now g = Inr (r, meter2, last1, g4)"
    and "in_sag meter2"
  shows "sag_duration_min cfg \<le> sag_remaining_seconds meter2
         \<and> sag_remaining_seconds meter2 \<le> sag_duration_max cfg"
proof -
  obtain v where "reading_values R cfg last_t meter timestamp now g = Inr (v, meter2, last1, g4)"
    using generate_reading_Inr [OF assms(3)] by blast
  from reading_values_Inr [OF this] obtain g2 g3 meter1 where
    u: "update_sag_state R cfg last_t meter now g2 = Inr (loc_sag_adjustment v, meter1, last1, g3)"
    and m: "meter2 = meter1\<lparr>seq := seq meter1 + 1\<rparr>"
    by blast
  have "in_sag meter1"
    using assms(4) by (simp add: m)
  then obtain gb where "fst (rnd_randint R (sag_duration_min cfg) (sag_duration_max cfg) gb)
                    = Inr (sag_remaining_seconds meter1)"
    using update_sag_state_start [OF assms(2) u] by blast
  then show ?thesis
    using randint_result [OF assms(1)] by (simp add: m)
qed

lemma meter_ticks_Cons:
  assumes "meter_ticks R cfg meter (env # envs) = Inr trace"
  shows "\<exists>r meter1 l1 g1 rest.
           generate_reading R cfg (fst env) meter (fst (snd env)) (fst (snd (snd env)))
               (snd (snd (snd env))) = Inr (r, meter1, l1, g1)
           \<and> meter_ticks R cfg meter1 envs = Inr rest \<and> trace = (r, meter1) # rest"
  using assms by (cases env) (auto split: sum.splits)

lemma meter_ticks_length:
  "meter_ticks R cfg meter envs = Inr trace \<Longrightarrow> length trace = length envs"
proof (induction envs arbitrary: meter trace)
  case Nil
  then show ?case by simp
next
  case (Cons env envs)
  then show ?case
    using meter_ticks_Cons [OF Cons.prems] by auto
qed

text \<open>The run that is left after the first \<open>i\<close> ticks.\<close>

lemma meter_ticks_drop:
  assumes "meter_ticks R cfg meter envs = Inr trace" and "i \<le> length trace"
  shows "meter_ticks R cfg ((meter # map snd trace) ! i) (drop i envs) = Inr (drop i trace)"
  using assms
proof (induction i arbitrary: meter envs trace)
  case 0
  then show ?case by simp
next
  case (Suc i)
  then obtain env envs' where envs: "envs = env # envs'"
    by (cases envs) auto
  obtain r meter1 rest where rest: "meter_ticks R cfg meter1 envs' = Inr rest"
    and tr: "trace = (r, meter1) # rest"
    using meter_ticks_Cons [OF Suc.prems(1) [unfolded envs]] by blast
  have "i \<le> length rest"
    using Suc.prems(2) by (simp add: tr)
  then show ?case
    using Suc.IH [OF rest] by (simp add: envs tr)
qed

lemma meter_ticks_sag_inv:
  assumes "uniform_in_range R" and "randint_in_range R"
    and "1 \<le> sag_duration_min cfg" and "0 < sag_depth_min cfg" and "0 < sag_depth_max cfg"
  shows "sag_inv meter \<Longrightarrow> meter_ticks R cfg meter envs = Inr trace \<Longrightarrow> i \<le> length trace
         \<Longrightarrow> sag_inv ((meter # map snd trace) ! i)"
proof (induction i arbitrary: meter envs trace)
  case 0
  then show ?case by simp
next
  case (Suc i)
  then obtain env envs' where envs: "envs = env # envs'"
    by (cases envs) auto
  obtain r meter1 l1 g1 rest where
    step: "generate_reading R cfg (fst env) meter (fst (snd env)) (fst (snd (snd env)))
               (snd (snd (snd env))) = Inr (r, meter1, l1, g1)"
    and rest: "meter_ticks R cfg meter1 envs' = Inr rest"
    and tr: "trace = (r, meter1) # rest"
    using meter_ticks_Cons [OF Suc.prems(2) [unfolded envs]] by blast
  have "sag_inv meter1"
    using generate_reading_sag_inv [OF assms Suc.prems(1) step] .
  moreover have "i \<le> length rest"
    using Suc.prems(3) by (simp add: tr)
  ultimately show ?case
    using Suc.IH [OF _ rest] by (simp add: tr)
qed

text \<open>A sag with \<open>d\<close> ticks left stays for \<open>d - 1\<close> more ticks and ends at the next one.\<close>

lemma meter_ticks_countdown:
  "in_sag meter \<Longrightarrow> 1 \<le> sag_remaining_seconds meter
   \<Longrightarrow> meter_ticks R cfg meter envs = Inr trace \<Longrightarrow> j \<le> length trace
   \<Longrightarrow> int j \<le> sag_remaining_seconds meter
   \<Longrightarrow> in_sag ((meter # map snd trace) ! j) = (int j < sag_remaining_seconds meter)"
proof (induction j arbitrary: meter envs trace)
  case 0
  then show ?case by simp
next
  case (Suc j)
  then obtain env envs' where envs: "envs = env # envs'"
    by (cases envs) auto
  obtain r meter1 l1 g1 rest where
    step: "generate_reading R cfg (fst env) meter (fst (snd env)) (fst (snd (snd env)))
               (snd (snd (snd env))) = Inr (r, meter1, l1, g1)"
    and rest: "meter_ticks R cfg meter1 envs' = Inr rest"
    and tr: "trace = (r, meter1) # rest"
    using meter_ticks_Cons [OF Suc.prems(3) [unfolded envs]] by blast
  have m1: "sag_remaining_seconds meter1 = sag_remaining_seconds meter - 1"
    "in_sag meter1 = (1 < sag_remaining_seconds meter)"
    using generate_reading_in_sag [OF Suc.prems(1) step] by simp_all
  have len: "j \<le> length rest"
    using Suc.prems(4) by (simp add: tr)
  show ?case
  proof (cases "1 < sag_remaining_seconds meter")
    case True
    then have "in_sag ((meter1 # map snd rest) ! j) = (int j < sag_remaining_seconds meter1)"
      using Suc.IH [OF _ _ rest len] m1 Suc.prems(5) by simp
    then show ?thesis
      by (simp add: tr m1) linarith
  next
    case False
    then have "j = 0"
      using Suc.prems(2,5) by simp
    then show ?thesis
      using False m1 Suc.prems(2) by (simp add: tr)
  qed
qed

lemma states_drop:
  assumes "k \<le> length trace"
  shows "((meter # map snd trace) ! k # map snd (drop k trace)) ! j = (meter # map snd trace) ! (k + j)"
proof -
  have "k < length (meter # map snd trace)"
    using assms by simp
  then have "drop k (meter # map snd trace) = (meter # map snd trace) ! k # drop (Suc k) (meter # map snd trace)"
    by (rule Cons_nth_drop_Suc [symmetric])
  then have "(meter # map snd trace) ! k # map snd (drop k trace) = drop k (meter # map snd trace)"
    by (simp add: drop_map)
  then show ?thesis
    using assms by simp
qed

text \<open>
  C4, as the code has it. Take a meter whose state satisfies the invariant (a new meter
  does), a configuration whose sags last at least one tick and are deeper than zero, and any
  sequence of \<^verbatim>\<open>generate_reading\<close> calls for that meter that return. Then the
  invariant holds after every tick: ticks remain if and only if \<open>in_sag\<close> is true, and the
  depth is zero if and only if \<open>in_sag\<close> is false. And when tick \<open>i\<close> starts a sag, the
  duration \<open>d\<close> it stored was sampled within the configured range, \<open>in_sag\<close> is true after
  that tick and after each of the next \<open>d - 1\<close> ticks (\<open>d\<close> ticks in a row), and false after
  the tick that follows them.
\<close>

theorem sag_state_machine:
  assumes "uniform_in_range R" and "randint_in_range R"
    and "1 \<le> sag_duration_min cfg" and "0 < sag_depth_min cfg" and "0 < sag_depth_max cfg"
    and "sag_inv meter"
    and "meter_ticks R cfg meter envs = Inr trace"
    and "states = meter # map snd trace"
    and "i \<le> length trace"
  shows "sag_inv (states ! i)
         \<and> (i < length trace \<and> \<not> in_sag (states ! i) \<and> in_sag (states ! Suc i) \<longrightarrow>
              sag_duration_min cfg \<le> sag_remaining_seconds (states ! Suc i)
              \<and> sag_remaining_seconds (states ! Suc i) \<le> sag_duration_max cfg
              \<and> (\<forall>j. Suc i + j \<le> length trace \<and> int j \<le> sag_remaining_seconds (states ! Suc i) \<longrightarrow>
                     in_sag (states ! (Suc i + j)) = (int j < sag_remaining_seconds (states ! Suc i))))"
proof (intro conjI impI allI)
  show inv: "sag_inv (states ! i)"
    unfolding assms(8) using meter_ticks_sag_inv [OF assms(1-7) assms(9)] .
next
  assume a: "i < length trace \<and> \<not> in_sag (states ! i) \<and> in_sag (states ! Suc i)"
  have "meter_ticks R cfg (states ! i) (drop i envs) = Inr (drop i trace)"
    unfolding assms(8) using meter_ticks_drop [OF assms(7,9)] .
  moreover have "i < length envs"
    using a meter_ticks_length [OF assms(7)] by simp
  then have "drop i envs = envs ! i # drop (Suc i) envs" "drop i trace = trace ! i # drop (Suc i) trace"
    using a meter_ticks_length [OF assms(7)] by (simp_all add: Cons_nth_drop_Suc)
  ultimately obtain r meter1 l1 g1 rest where
    step: "generate_reading R cfg (fst (envs ! i)) (states ! i) (fst (snd (envs ! i)))
             (fst (snd (snd (envs ! i)))) (snd (snd (snd (envs ! i)))) = Inr (r, meter1, l1, g1)"
    and tr: "trace ! i # drop (Suc i) trace = (r, meter1) # rest"
    using meter_ticks_Cons [of R cfg "states ! i" "envs ! i" "drop (Suc i) envs" "drop i trace"]
    by auto
  have "states ! Suc i = snd (trace ! i)"
    using a by (simp add: assms(8))
  then have m1: "states ! Suc i = meter1"
    using tr by simp
  show "sag_duration_min cfg \<le> sag_remaining_seconds (states ! Suc i)"
    and "sag_remaining_seconds (states ! Suc i) \<le> sag_duration_max cfg"
    using generate_reading_duration [OF assms(2) _ step] a m1 by simp_all
next
  fix j
  assume a: "i < length trace \<and> \<not> in_sag (states ! i) \<and> in_sag (states ! Suc i)"
    and j: "Suc i + j \<le> length trace \<and> int j \<le> sag_remaining_seconds (states ! Suc i)"
  have le: "Suc i \<le> length trace"
    using a by simp
  have "sag_inv (states ! Suc i)"
    unfolding assms(8) using meter_ticks_sag_inv [OF assms(1-7) le] .
  then have d: "1 \<le> sag_remaining_seconds (states ! Suc i)"
    using a by (simp add: sag_inv_def)
  have run: "meter_ticks R cfg (states ! Suc i) (drop (Suc i) envs) = Inr (drop (Suc i) trace)"
    unfolding assms(8) using meter_ticks_drop [OF assms(7) le] .
  have "j \<le> length (drop (Suc i) trace)"
    using j by auto
  then have "in_sag ((states ! Suc i # map snd (drop (Suc i) trace)) ! j)
          = (int j < sag_remaining_seconds (states ! Suc i))"
    using meter_ticks_countdown [OF _ d run, of j] a j by blast
  then show "in_sag (states ! (Suc i + j)) = (int j < sag_remaining_seconds (states ! Suc i))"
    unfolding assms(8) using states_drop [OF le, of meter j] by simp
qed

lemma sag_run_flags:
  "map_sum id (map (in_sag \<circ> snd)) (meter_ticks replay_source default_config example_meter sag_run)
     = Inr [True, True, True, False]"
  by (simp add: sag_run_def run_simps)

lemma sag_run_remaining:
  "map_sum id (map (sag_remaining_seconds \<circ> snd)) (meter_ticks replay_source default_config example_meter sag_run)
     = Inr [3,2,1,0]"
  by (simp add: sag_run_def run_simps)

theorem sag_state_machine_witness:
  "uniform_in_range replay_source \<and> randint_in_range replay_source
   \<and> 1 \<le> sag_duration_min default_config \<and> 0 < sag_depth_min default_config
   \<and> 0 < sag_depth_max default_config \<and> sag_inv example_meter
   \<and> (\<exists>trace. meter_ticks replay_source default_config example_meter sag_run = Inr trace
         \<and> length trace = 4
         \<and> sag_inv ((example_meter # map snd trace) ! 1)
         \<and> sag_remaining_seconds ((example_meter # map snd trace) ! 1) = 3
         \<and> in_sag ((example_meter # map snd trace) ! 3)
         \<and> \<not> in_sag ((example_meter # map snd trace) ! 4))"
proof -
  have cfg: "1 \<le> sag_duration_min default_config" "0 < sag_depth_min default_config"
    "0 < sag_depth_max default_config"
    by (simp_all add: default_config_def)
  have inv: "sag_inv example_meter" and idle: "\<not> in_sag example_meter"
    by (simp_all add: sag_inv_def example_meter_def new_meter_def)
  obtain trace where run: "meter_ticks replay_source default_config example_meter sag_run = Inr trace"
    and flags: "map (in_sag \<circ> snd) trace = [True, True, True, False]"
    and left: "map (sag_remaining_seconds \<circ> snd) trace = [3, 2, 1, 0]"
    using sag_run_flags sag_run_remaining
    by (cases "meter_ticks replay_source default_config example_meter sag_run") auto
  have len: "length trace = 4"
    using arg_cong [OF flags, of length] by simp
  have "(map (in_sag \<circ> snd) trace) ! 0 = True" "(map (sag_remaining_seconds \<circ> snd) trace) ! 0 = 3"
    by (simp_all only: flags left nth_Cons_0)
  then have first: "in_sag ((example_meter # map snd trace) ! Suc 0)"
    "sag_remaining_seconds ((example_meter # map snd trace) ! Suc 0) = 3"
    using len by simp_all
  note machine = sag_state_machine [OF replay_uniform_in_range replay_randint_in_range cfg inv run refl]
  have one: "sag_inv ((example_meter # map snd trace) ! 1)"
    using machine [of 1] len by simp
  have during: "\<forall>j. Suc 0 + j \<le> length trace \<and> int j \<le> 3 \<longrightarrow>
          in_sag ((example_meter # map snd trace) ! (Suc 0 + j)) = (int j < 3)"
    using machine [of 0] len idle first by simp
  have "in_sag ((example_meter # map snd trace) ! 3)"
    using during [rule_format, of 2] len by (simp add: numeral_eq_Suc)
  moreover have "\<not> in_sag ((example_meter # map snd trace) ! 4)"
    using during [rule_format, of 3] len by (simp add: numeral_eq_Suc)
  ultimately have "in_sag ((example_meter # map snd trace) ! 3)"
    and "\<not> in_sag ((example_meter # map snd trace) ! 4)"
    by simp_all
  then show ?thesis
    using replay_uniform_in_range replay_randint_in_range cfg inv run len one first by auto
qed

text \<open>
  As C4 is worded, for every sampled duration, it fails: with a duration range of \<open>[0, 0]\<close>
  the sag that starts has \<open>d = 0\<close>, yet \<open>in_sag\<close> is true after the tick that starts it, with
  no tick remaining, and false only after the next tick.
\<close>

theorem sag_zero_duration_counterexample:
  "map_sum id (map (in_sag \<circ> snd))
     (meter_ticks replay_source zero_duration_config example_meter zero_duration_run)
     = Inr [True, False]
   \<and> map_sum id (map (sag_remaining_seconds \<circ> snd))
       (meter_ticks replay_source zero_duration_config example_meter zero_duration_run)
     = Inr [0, - 1]
   \<and> map_sum id (map (sag_inv \<circ> snd))
       (meter_ticks replay_source zero_duration_config example_meter zero_duration_run)
     = Inr [False, True]"
  by (simp add: zero_duration_run_def zero_duration_config_def sag_inv_def run_simps)

subsection \<open>Power and current of a reading\<close>








subsection \<open>The voltage of a reading\<close>

text \<open>The offset the sag state machine returns, and the depth it leaves in the meter.\<close>

lemma update_sag_state_offset:
  assumes "uniform_in_range R"
    and "0 \<le> sag_depth_min cfg" and "sag_depth_min cfg \<le> sag_depth_max cfg"
    and "0 \<le> sag_depth meter" and "sag_depth meter \<le> sag_depth_max cfg"
    and "update_sag_state R cfg last_t meter now g = Inr (adj, meter1, last1, g1)"
  shows "- sag_depth_max cfg \<le> adj \<and> adj \<le> 0
         \<and> 0 \<le> sag_depth meter1 \<and> sag_depth meter1 \<le> sag_depth_max cfg"
proof (cases "in_sag meter")
  case True
  then show ?thesis
    using assms(2-6) by (auto simp: update_sag_state_in_sag split: if_splits)
next
  case False
  show ?thesis
  proof (cases "in_sag meter1")
    case True
    obtain ga where d: "sag_depth meter1 = fst (rnd_uniform R (sag_depth_min cfg) (sag_depth_max cfg) ga)"
      and a: "adj = - sag_depth meter1"
      using update_sag_state_start [OF False assms(6) True] by blast
    have "sag_depth_min cfg \<le> sag_depth meter1 \<and> sag_depth meter1 \<le> sag_depth_max cfg"
      using uniform_result [OF assms(1), of "sag_depth_min cfg" "sag_depth_max cfg" ga] assms(3) d
      by simp
    then show ?thesis
      using a assms(2) by simp
  next
    case False
    then show ?thesis
      using update_sag_state_idle [OF \<open>\<not> in_sag meter\<close> assms(6) False] assms(2-5) by simp
  qed
qed

text \<open>
  C8, as the code has it. The code has no bound on the Gaussian noise, so \<open>max_noise\<close> is
  any bound on the magnitude of the noise drawn for this reading. If the sag depth range
  satisfies \<open>0 \<le> sag_depth_min \<le> sag_depth_max\<close> and the depth stored in the meter lies in
  \<open>[0, sag_depth_max]\<close> (which each reading preserves), then the voltage computed as nominal
  plus noise plus sag offset lies in
  \<open>[nominal - max_noise - sag_depth_max, nominal + max_noise]\<close>. The reading carries that
  voltage rounded to two decimals, which lies within \<open>0.005\<close> of the interval.
\<close>

theorem voltage_within_noise_and_sag_bounds:
  assumes "uniform_in_range R"
    and "0 \<le> sag_depth_min cfg" and "sag_depth_min cfg \<le> sag_depth_max cfg"
    and "0 \<le> sag_depth meter" and "sag_depth meter \<le> sag_depth_max cfg"
    and "reading_values R cfg last_t meter timestamp now g = Inr (v, meter2, last1, g4)"
    and "\<bar>loc_voltage_noise v\<bar> \<le> max_noise"
  shows "generate_reading R cfg last_t meter timestamp now g
           = Inr (reading_dict timestamp meter2 v, meter2, last1, g4)
         \<and> loc_voltage_v v = voltage_nominal cfg + loc_voltage_noise v + loc_sag_adjustment v
         \<and> voltage_nominal cfg - max_noise - sag_depth_max cfg \<le> loc_voltage_v v
         \<and> loc_voltage_v v \<le> voltage_nominal cfg + max_noise
         \<and> voltage_v (reading_dict timestamp meter2 v) = py_round (loc_voltage_v v) 2
         \<and> voltage_nominal cfg - max_noise - sag_depth_max cfg - 5 / 1000
              \<le> voltage_v (reading_dict timestamp meter2 v)
         \<and> voltage_v (reading_dict timestamp meter2 v) \<le> voltage_nominal cfg + max_noise + 5 / 1000
         \<and> 0 \<le> sag_depth meter2 \<and> sag_depth meter2 \<le> sag_depth_max cfg"
proof -
  from reading_values_Inr [OF assms(6)] obtain g2 g3 meter1 where
    u: "update_sag_state R cfg last_t meter now g2 = Inr (loc_sag_adjustment v, meter1, last1, g3)"
    and m: "meter2 = meter1\<lparr>seq := seq meter1 + 1\<rparr>"
    and volt: "loc_voltage_v v = voltage_nominal cfg + loc_voltage_noise v + loc_sag_adjustment v"
    by blast
  note off = update_sag_state_offset [OF assms(1-5) u]
  have lo: "voltage_nominal cfg - max_noise - sag_depth_max cfg \<le> loc_voltage_v v"
    and hi: "loc_voltage_v v \<le> voltage_nominal cfg + max_noise"
    using off assms(7) volt by linarith+
  have "\<bar>py_round (loc_voltage_v v) 2 - loc_voltage_v v\<bar> \<le> 5 / 1000"
    using py_round_close [of "loc_voltage_v v" 2] by simp
  then have "voltage_nominal cfg - max_noise - sag_depth_max cfg - 5 / 1000
                \<le> py_round (loc_voltage_v v) 2"
    and "py_round (loc_voltage_v v) 2 \<le> voltage_nominal cfg + max_noise + 5 / 1000"
    using lo hi by linarith+
  moreover have "generate_reading R cfg last_t meter timestamp now g
           = Inr (reading_dict timestamp meter2 v, meter2, last1, g4)"
    by (simp add: generate_reading_def assms(6))
  ultimately show ?thesis
    using volt lo hi off by (simp add: reading_dict_def m)
qed

theorem voltage_within_noise_and_sag_bounds_witness:
  "uniform_in_range replay_source
   \<and> 0 \<le> sag_depth_min default_config \<and> sag_depth_min default_config \<le> sag_depth_max default_config
   \<and> 0 \<le> sag_depth example_meter \<and> sag_depth example_meter \<le> sag_depth_max default_config
   \<and> (\<exists>v meter2 last1 g4.
         reading_values replay_source default_config 0 example_meter noon 0 [500, 502, 0, 500, 7, 500]
           = Inr (v, meter2, last1, g4)
         \<and> \<bar>loc_voltage_noise v\<bar> \<le> 6 / 1000
         \<and> loc_sag_adjustment v = - 20
         \<and> voltage_nominal default_config - 6 / 1000 - sag_depth_max default_config \<le> loc_voltage_v v
         \<and> loc_voltage_v v \<le> voltage_nominal default_config + 6 / 1000
         \<and> voltage_v (reading_dict noon meter2 v) \<le> voltage_nominal default_config + 6 / 1000 + 5 / 1000)"
proof -
  have cfg: "0 \<le> sag_depth_min default_config" "sag_depth_min default_config \<le> sag_depth_max default_config"
    by (simp_all add: default_config_def)
  have m: "0 \<le> sag_depth example_meter" "sag_depth example_meter \<le> sag_depth_max default_config"
    by (simp_all add: example_meter_def new_meter_def default_config_def)
  obtain v meter2 last1 g4 where
    run: "reading_values replay_source default_config 0 example_meter noon 0 [500, 502, 0, 500, 7, 500]
           = Inr (v, meter2, last1, g4)"
    and noise: "loc_voltage_noise v = 6 / 1000" and adj: "loc_sag_adjustment v = - 20"
    by (simp add: run_simps)
  have n: "\<bar>loc_voltage_noise v\<bar> \<le> 6 / 1000"
    by (simp add: noise)
  show ?thesis
    using voltage_within_noise_and_sag_bounds [OF replay_uniform_in_range cfg m run n]
      replay_uniform_in_range cfg m run n adj
    by blast
qed

text \<open>
  As C8 is worded, about the voltage value of the reading, it fails even when \<open>max_noise\<close>
  bounds the noise of that reading: the noise is \<open>0.006\<close>, the voltage \<open>240.006\<close>, and the
  reading carries \<open>240.01\<close>, above \<open>nominal + 0.006\<close>.
\<close>

theorem rounded_voltage_counterexample:
  "map_sum id (loc_voltage_noise \<circ> fst)
     (reading_values replay_source default_config 0 example_meter noon 0 [500, 502, 1, 500])
     = Inr (6 / 1000)
   \<and> map_sum id (voltage_v \<circ> fst)
       (generate_reading replay_source default_config 0 example_meter noon 0 [500, 502, 1, 500])
     = Inr (24001 / 100)
   \<and> \<not> (24001 / 100 \<le> voltage_nominal default_config + 6 / 1000)"
  by (simp add: run_simps)

subsection \<open>The drain pass and the flush\<close>

lemmas relay_simps = publish_def should_drop_def should_reorder_def get_latency_ms_def
  record_received_def record_dropped_def record_reordered_def do_publish_def
  GatewayRelay_init_def fresh_relay_def busy_profile_def
  replay_source_def replay_next_def replay_unit_def Let_def shutdown_def
  process_reorder_buffer.simps flush.simps

lemma process_reorder_buffer_Nil:
  "reorder_buffer relay = [] \<Longrightarrow> process_reorder_buffer now relay = relay"
  by (simp add: process_reorder_buffer.simps)

lemma process_reorder_buffer_fields:
  "reorder_buffer (process_reorder_buffer now relay)
     = dropWhile (is_due (reorder_delay_seconds relay) now) (reorder_buffer relay)
   \<and> sink (process_reorder_buffer now relay)
     = sink relay @ map snd (takeWhile (is_due (reorder_delay_seconds relay) now) (reorder_buffer relay))
   \<and> stats (process_reorder_buffer now relay) = stats relay
   \<and> network_profile (process_reorder_buffer now relay) = network_profile relay
   \<and> reorder_delay_seconds (process_reorder_buffer now relay) = reorder_delay_seconds relay"
proof (induction now relay rule: process_reorder_buffer.induct)
  case (1 now relay)
  show ?case
  proof (cases "reorder_buffer relay")
    case Nil
    then show ?thesis
      by (simp add: process_reorder_buffer.simps [of now relay])
  next
    case (Cons entry rest)
    obtain msg_time message where entry: "entry = (msg_time, message)"
      by (cases entry) auto
    show ?thesis
    proof (cases "reorder_delay_seconds relay \<le> now - msg_time")
      case True
      then show ?thesis
        using "1.IH" [OF Cons [unfolded entry] refl True]
        by (simp add: process_reorder_buffer.simps [of now relay] Cons entry is_due_def do_publish_def)
    next
      case False
      then show ?thesis
        by (simp add: process_reorder_buffer.simps [of now relay] Cons entry is_due_def)
    qed
  qed
qed

lemma flush_fields:
  "reorder_buffer (flush relay) = []
   \<and> sink (flush relay) = sink relay @ map snd (reorder_buffer relay)
   \<and> stats (flush relay) = stats relay
   \<and> network_profile (flush relay) = network_profile relay"
proof (induction relay rule: flush.induct)
  case (1 relay)
  show ?case
  proof (cases "reorder_buffer relay")
    case Nil
    then show ?thesis
      by (simp add: flush.simps [of relay])
  next
    case (Cons entry rest)
    obtain msg_time message where entry: "entry = (msg_time, message)"
      by (cases entry) auto
    show ?thesis
      using "1.IH" [OF Cons [unfolded entry] refl]
      by (simp add: flush.simps [of relay] Cons entry do_publish_def)
  qed
qed

lemma shutdown_fields:
  "reorder_buffer (shutdown relay) = []
   \<and> sink (shutdown relay) = sink relay @ map snd (reorder_buffer relay)
   \<and> stats (shutdown relay) = stats relay"
  by (simp add: shutdown_def flush_fields)

text \<open>The three ways a call of publish ends.\<close>

lemma publish_dropped:
  assumes "fst (should_drop R (network_profile relay) g)"
  shows "publish R message t_append t_drain relay g
           = (Inr False,
              relay\<lparr>stats := record_dropped 1 (record_received 1 (stats relay))\<rparr>,
              snd (should_drop R (network_profile relay) g))"
  using assms by (simp add: publish_def Let_def split_def)

lemma publish_raised:
  assumes "\<not> fst (should_drop R (network_profile relay) g)"
    and "fst (get_latency_ms R (network_profile relay) (snd (should_drop R (network_profile relay) g)))
           = Inl e"
  shows "publish R message t_append t_drain relay g
           = (Inl e, relay\<lparr>stats := record_received 1 (stats relay)\<rparr>,
              snd (get_latency_ms R (network_profile relay) (snd (should_drop R (network_profile relay) g))))"
  using assms by (simp add: publish_def Let_def split_def)

lemma publish_delivered:
  assumes "\<not> fst (should_drop R (network_profile relay) g)"
    and "fst (get_latency_ms R (network_profile relay) (snd (should_drop R (network_profile relay) g)))
           = Inr latency_ms"
    and "g2 = snd (get_latency_ms R (network_profile relay) (snd (should_drop R (network_profile relay) g)))"
  shows "publish R message t_append t_drain relay g
           = (Inr True,
              process_reorder_buffer t_drain
                (if fst (should_reorder R (network_profile relay) g2)
                 then relay\<lparr>stats := record_reordered 1 (record_received 1 (stats relay)),
                            reorder_buffer := reorder_buffer relay @ [(t_append, message)]\<rparr>
                 else do_publish message (relay\<lparr>stats := record_received 1 (stats relay)\<rparr>)),
              snd (should_reorder R (network_profile relay) g2))"
  using assms by (simp add: publish_def Let_def split_def)

subsection \<open>The drain pass of a call\<close>

text \<open>
  C1, as the code has it. Every call of \<^verbatim>\<open>publish\<close> that is not dropped, and whose
  latency is sampled without an exception, returns True after the drain pass has run on the
  buffer the call left: if the message was delayed, on the old buffer with the message at
  its end; if it was forwarded at once, on the old buffer, the message going to the sink
  first. The drain pass pops the entries from the head for as long as they are due and
  forwards them to the sink in that order, so that afterwards the buffer is empty or its
  head is not due.
\<close>

theorem publish_drains_when_not_dropped:
  assumes "\<not> fst (should_drop R (network_profile relay) g)"
    and "fst (get_latency_ms R (network_profile relay) (snd (should_drop R (network_profile relay) g)))
           = Inr latency_ms"
    and "g2 = snd (get_latency_ms R (network_profile relay) (snd (should_drop R (network_profile relay) g)))"
    and "publish R message t_append t_drain relay g = (result, relay1, g3)"
    and "due = is_due (reorder_delay_seconds relay) t_drain"
  shows "result = Inr True
         \<and> (if fst (should_reorder R (network_profile relay) g2)
            then reorder_buffer relay1 = dropWhile due (reorder_buffer relay @ [(t_append, message)])
                 \<and> sink relay1
                     = sink relay @ map snd (takeWhile due (reorder_buffer relay @ [(t_append, message)]))
            else reorder_buffer relay1 = dropWhile due (reorder_buffer relay)
                 \<and> sink relay1
                     = sink relay @ [message] @ map snd (takeWhile due (reorder_buffer relay)))
         \<and> (reorder_buffer relay1 = [] \<or> \<not> due (hd (reorder_buffer relay1)))"
proof -
  note p = publish_delivered [OF assms(1-3), of message t_append t_drain]
  have res: "result = Inr True"
    using p assms(4) by simp
  have r1: "relay1 = process_reorder_buffer t_drain
                (if fst (should_reorder R (network_profile relay) g2)
                 then relay\<lparr>stats := record_reordered 1 (record_received 1 (stats relay)),
                            reorder_buffer := reorder_buffer relay @ [(t_append, message)]\<rparr>
                 else do_publish message (relay\<lparr>stats := record_received 1 (stats relay)\<rparr>))"
    using p assms(4) by simp
  have fields: "if fst (should_reorder R (network_profile relay) g2)
            then reorder_buffer relay1 = dropWhile due (reorder_buffer relay @ [(t_append, message)])
                 \<and> sink relay1
                     = sink relay @ map snd (takeWhile due (reorder_buffer relay @ [(t_append, message)]))
            else reorder_buffer relay1 = dropWhile due (reorder_buffer relay)
                 \<and> sink relay1
                     = sink relay @ [message] @ map snd (takeWhile due (reorder_buffer relay))"
    unfolding r1 assms(5) by (simp add: process_reorder_buffer_fields do_publish_def)
  have "\<exists>xs. reorder_buffer relay1 = dropWhile due xs"
    using fields by (auto split: if_splits)
  then have "reorder_buffer relay1 = [] \<or> \<not> due (hd (reorder_buffer relay1))"
    by (metis hd_dropWhile)
  then show ?thesis
    using res fields by simp
qed

text \<open>
  As C1 is worded, for every call whatever its branch, it fails: a dropped call returns
  before the drain pass. The first call queues \<open>r1\<close> at time 0; the second call, at time
  10, is dropped, and returns with \<open>r1\<close> still in the buffer, due for eight seconds and
  not forwarded.
\<close>

theorem dropped_call_skips_drain_counterexample:
  "fst (publish_calls replay_source [(''r1'', 0, 0), (''r2'', 10, 10)] fresh_relay [900, 0, 0, 100, 100])
     = Inr [True, False]
   \<and> reorder_buffer (fst (snd (publish_calls replay_source [(''r1'', 0, 0), (''r2'', 10, 10)]
                                  fresh_relay [900, 0, 0, 100, 100])))
     = [(0, ''r1'')]
   \<and> sink (fst (snd (publish_calls replay_source [(''r1'', 0, 0), (''r2'', 10, 10)]
                        fresh_relay [900, 0, 0, 100, 100])))
     = []
   \<and> is_due (reorder_delay_seconds fresh_relay) 10 (0, ''r1'')"
  by (simp add: relay_simps is_due_def)

theorem publish_drains_when_not_dropped_witness:
  "\<not> fst (should_drop replay_source (network_profile waiting_relay) [900, 0, 0, 900])
   \<and> fst (get_latency_ms replay_source (network_profile waiting_relay)
            (snd (should_drop replay_source (network_profile waiting_relay) [900, 0, 0, 900])))
       = Inr 1
   \<and> fst (publish replay_source ''r2'' 10 10 waiting_relay [900, 0, 0, 900]) = Inr True
   \<and> reorder_buffer (fst (snd (publish replay_source ''r2'' 10 10 waiting_relay [900, 0, 0, 900]))) = []
   \<and> sink (fst (snd (publish replay_source ''r2'' 10 10 waiting_relay [900, 0, 0, 900])))
       = [''r2'', ''r1'']"
proof -
  have a: "\<not> fst (should_drop replay_source (network_profile waiting_relay) [900, 0, 0, 900])"
    by (simp add: waiting_relay_def relay_simps)
  have b: "fst (get_latency_ms replay_source (network_profile waiting_relay)
            (snd (should_drop replay_source (network_profile waiting_relay) [900, 0, 0, 900])))
       = Inr 1"
    by (simp add: waiting_relay_def relay_simps)
  obtain result relay1 g3 where
    p: "publish replay_source ''r2'' 10 10 waiting_relay [900, 0, 0, 900] = (result, relay1, g3)"
    by (cases "publish replay_source ''r2'' 10 10 waiting_relay [900, 0, 0, 900]") auto
  have c: "\<not> fst (should_reorder replay_source (network_profile waiting_relay)
              (snd (get_latency_ms replay_source (network_profile waiting_relay)
                 (snd (should_drop replay_source (network_profile waiting_relay) [900, 0, 0, 900])))))"
    by (simp add: waiting_relay_def relay_simps)
  have d: "takeWhile (is_due (reorder_delay_seconds waiting_relay) 10) (reorder_buffer waiting_relay)
             = [(0, ''r1'')]"
    "dropWhile (is_due (reorder_delay_seconds waiting_relay) 10) (reorder_buffer waiting_relay) = []"
    "sink waiting_relay = []"
    by (simp_all add: waiting_relay_def relay_simps is_due_def)
  show ?thesis
    using publish_drains_when_not_dropped [OF a b refl p refl] a b c d
    by (simp add: p)
qed

subsection \<open>Accounting of the relay\<close>
















subsection \<open>Dropped readings\<close>

lemma should_drop_certain:
  assumes "random_in_range R" and "1 \<le> drop_prob profile"
  shows "fst (should_drop R profile g)"
proof -
  have "fst (rnd_random R g) < 1"
    using assms(1) unfolding random_in_range_def by blast
  then show ?thesis
    using assms(2) by (simp add: should_drop_def Let_def split_def)
qed

lemma publish_dropped_fields:
  assumes "fst (should_drop R (network_profile relay) g)"
    and "publish R message t_append t_drain relay g = (result, relay1, g1)"
  shows "result = Inr False
         \<and> messages_dropped (stats relay1) = messages_dropped (stats relay) + 1
         \<and> messages_received (stats relay1) = messages_received (stats relay) + 1
         \<and> sink relay1 = sink relay \<and> reorder_buffer relay1 = reorder_buffer relay
         \<and> network_profile relay1 = network_profile relay"
  using assms(2) unfolding publish_dropped [OF assms(1)]
  by (auto simp: record_dropped_def record_received_def)

text \<open>A message that is neither forwarded nor waiting stays so while other messages pass.\<close>

lemma absent_process_reorder_buffer:
  "absent message relay \<Longrightarrow> absent message (process_reorder_buffer now relay)"
proof -
  assume a: "absent message relay"
  have "set (takeWhile (is_due (reorder_delay_seconds relay) now) (reorder_buffer relay))
          \<subseteq> set (reorder_buffer relay)"
    and "set (dropWhile (is_due (reorder_delay_seconds relay) now) (reorder_buffer relay))
          \<subseteq> set (reorder_buffer relay)"
    by (auto dest: set_takeWhileD set_dropWhileD)
  then show ?thesis
    using a by (auto simp: absent_def process_reorder_buffer_fields)
qed

lemma absent_publish:
  assumes "absent message relay" and "other \<noteq> message"
    and "publish R other t_append t_drain relay g = (result, relay1, g1)"
  shows "absent message relay1"
proof (cases "fst (should_drop R (network_profile relay) g)")
  case True
  then show ?thesis
    using publish_dropped_fields [OF True assms(3)] assms(1) by (simp add: absent_def)
next
  case False
  define g1' where "g1' = snd (should_drop R (network_profile relay) g)"
  show ?thesis
  proof (cases "fst (get_latency_ms R (network_profile relay) g1')")
    case (Inl e)
    then show ?thesis
      using assms(1,3) publish_raised [OF False Inl [unfolded g1'_def]] by (auto simp: absent_def)
  next
    case (Inr latency_ms)
    define relay2 where "relay2 =
      (if fst (should_reorder R (network_profile relay)
                 (snd (get_latency_ms R (network_profile relay) (snd (should_drop R (network_profile relay) g)))))
       then relay\<lparr>stats := record_reordered 1 (record_received 1 (stats relay)),
                  reorder_buffer := reorder_buffer relay @ [(t_append, other)]\<rparr>
       else do_publish other (relay\<lparr>stats := record_received 1 (stats relay)\<rparr>))"
    have "relay1 = process_reorder_buffer t_drain relay2"
      unfolding relay2_def
      using assms(3) publish_delivered [OF False Inr [unfolded g1'_def] refl, of other t_append t_drain]
      by simp
    moreover have "absent message relay2"
      using assms(1,2) by (auto simp: relay2_def absent_def do_publish_def)
    ultimately show ?thesis
      by (simp add: absent_process_reorder_buffer)
  qed
qed

lemma absent_publish_calls:
  "absent message relay \<Longrightarrow> message \<notin> fst ` set calls
   \<Longrightarrow> publish_calls R calls relay g = (results, relay1, g1) \<Longrightarrow> absent message relay1"
proof (induction calls arbitrary: relay g results relay1 g1)
  case Nil
  then show ?case by simp
next
  case (Cons call rest)
  obtain other t_append t_drain where call: "call = (other, t_append, t_drain)"
    by (cases call) auto
  obtain res relay' g' where first: "publish R other t_append t_drain relay g = (res, relay', g')"
    by (cases "publish R other t_append t_drain relay g") auto
  have other: "other \<noteq> message" and rest: "message \<notin> fst ` set rest"
    using Cons.prems(2) by (auto simp: call)
  have a: "absent message relay'"
    using absent_publish [OF Cons.prems(1) other first] .
  show ?case
  proof (cases res)
    case (Inl e)
    then show ?thesis
      using Cons.prems(3) first a by (simp add: call)
  next
    case (Inr delivered)
    obtain res2 relay2 g2 where others: "publish_calls R rest relay' g' = (res2, relay2, g2)"
      by (cases "publish_calls R rest relay' g'") auto
    have "relay1 = relay2"
      using Cons.prems(3) first Inr others by (simp add: call split: sum.splits)
    then show ?thesis
      using Cons.IH [OF a rest others] by simp
  qed
qed

lemma absent_shutdown: "absent message relay \<Longrightarrow> message \<notin> set (sink (shutdown relay))"
  by (auto simp: absent_def shutdown_fields)

lemma publish_calls_all_dropped:
  assumes "random_in_range R"
  shows "1 \<le> drop_prob (network_profile relay)
         \<Longrightarrow> publish_calls R calls relay g = (results, relay1, g1)
         \<Longrightarrow> results = Inr (replicate (length calls) False) \<and> sink relay1 = sink relay
             \<and> reorder_buffer relay1 = reorder_buffer relay
             \<and> messages_dropped (stats relay1) = messages_dropped (stats relay) + int (length calls)"
proof (induction calls arbitrary: relay g results relay1 g1)
  case Nil
  then show ?case by simp
next
  case (Cons call rest)
  obtain message t_append t_drain where call: "call = (message, t_append, t_drain)"
    by (cases call) auto
  obtain res relay' g' where first: "publish R message t_append t_drain relay g = (res, relay', g')"
    by (cases "publish R message t_append t_drain relay g") auto
  note d = publish_dropped_fields [OF should_drop_certain [OF assms Cons.prems(1)] first]
  obtain res2 relay2 g2 where others: "publish_calls R rest relay' g' = (res2, relay2, g2)"
    by (cases "publish_calls R rest relay' g'") auto
  have p: "1 \<le> drop_prob (network_profile relay')"
    using d Cons.prems(1) by simp
  note ih = Cons.IH [OF p others]
  show ?case
    using Cons.prems(2) first d others ih by (simp add: call)
qed

text \<open>
  C3. When \<^verbatim>\<open>should_drop\<close> says so, the call returns False, the dropped counter grows
  by exactly one, and the sink and the reorder buffer are as before; if the reading was not
  in the relay already, then no later call for other readings, no drain pass and no
  shutdown hands it to the sink. With a drop probability of 1 (or more) every call of every
  sequence goes this way: each returns False and is counted as dropped, and nothing is
  handed to the sink.
\<close>

theorem dropped_reading_never_forwarded:
  "(fst (should_drop R (network_profile relay) g) \<longrightarrow>
      (case publish R message t_append t_drain relay g of
         (result, relay1, g1) \<Rightarrow>
           result = Inr False
           \<and> messages_dropped (stats relay1) = messages_dropped (stats relay) + 1
           \<and> sink relay1 = sink relay \<and> reorder_buffer relay1 = reorder_buffer relay
           \<and> (message \<notin> set (sink relay) \<and> message \<notin> snd ` set (reorder_buffer relay) \<longrightarrow>
                (\<forall>later. message \<notin> fst ` set later \<longrightarrow>
                   (case publish_calls R later relay1 g1 of
                      (results, relay2, g2) \<Rightarrow>
                        message \<notin> set (sink relay2) \<and> message \<notin> set (sink (shutdown relay2)))))))
   \<and> (random_in_range R \<and> 1 \<le> drop_prob (network_profile relay) \<longrightarrow>
        (\<forall>calls g'.
           case publish_calls R calls relay g' of
             (results, relay2, g2) \<Rightarrow>
               results = Inr (replicate (length calls) False)
               \<and> sink relay2 = sink relay
               \<and> messages_dropped (stats relay2) = messages_dropped (stats relay) + int (length calls)))"
proof (intro conjI impI)
  assume drop: "fst (should_drop R (network_profile relay) g)"
  obtain result relay1 g1 where p: "publish R message t_append t_drain relay g = (result, relay1, g1)"
    by (cases "publish R message t_append t_drain relay g") auto
  note d = publish_dropped_fields [OF drop p]
  have "\<forall>later. message \<notin> fst ` set later \<longrightarrow>
                   (case publish_calls R later relay1 g1 of
                      (results, relay2, g2) \<Rightarrow>
                        message \<notin> set (sink relay2) \<and> message \<notin> set (sink (shutdown relay2)))"
    if new: "message \<notin> set (sink relay) \<and> message \<notin> snd ` set (reorder_buffer relay)"
  proof (intro allI impI)
    fix later :: "('b \<times> real \<times> real) list"
    assume other: "message \<notin> fst ` set later"
    obtain results relay2 g2 where run: "publish_calls R later relay1 g1 = (results, relay2, g2)"
      by (cases "publish_calls R later relay1 g1") auto
    have "absent message relay1"
      using new d by (simp add: absent_def)
    then have a: "absent message relay2"
      using absent_publish_calls [OF _ other run] by simp
    then show "case publish_calls R later relay1 g1 of
                 (results, relay2, g2) \<Rightarrow>
                   message \<notin> set (sink relay2) \<and> message \<notin> set (sink (shutdown relay2))"
      using absent_shutdown [OF a] by (simp add: run absent_def)
  qed
  then show "case publish R message t_append t_drain relay g of
         (result, relay1, g1) \<Rightarrow>
           result = Inr False
           \<and> messages_dropped (stats relay1) = messages_dropped (stats relay) + 1
           \<and> sink relay1 = sink relay \<and> reorder_buffer relay1 = reorder_buffer relay
           \<and> (message \<notin> set (sink relay) \<and> message \<notin> snd ` set (reorder_buffer relay) \<longrightarrow>
                (\<forall>later. message \<notin> fst ` set later \<longrightarrow>
                   (case publish_calls R later relay1 g1 of
                      (results, relay2, g2) \<Rightarrow>
                        message \<notin> set (sink relay2) \<and> message \<notin> set (sink (shutdown relay2)))))"
    using d by (simp add: p)
next
  assume c: "random_in_range R \<and> 1 \<le> drop_prob (network_profile relay)"
  show "\<forall>calls g'.
           case publish_calls R calls relay g' of
             (results, relay2, g2) \<Rightarrow>
               results = Inr (replicate (length calls) False)
               \<and> sink relay2 = sink relay
               \<and> messages_dropped (stats relay2) = messages_dropped (stats relay) + int (length calls)"
  proof (intro allI)
    fix calls :: "('b \<times> real \<times> real) list" and g'
    obtain results relay2 g2 where run: "publish_calls R calls relay g' = (results, relay2, g2)"
      by (cases "publish_calls R calls relay g'") auto
    show "case publish_calls R calls relay g' of
             (results, relay2, g2) \<Rightarrow>
               results = Inr (replicate (length calls) False)
               \<and> sink relay2 = sink relay
               \<and> messages_dropped (stats relay2) = messages_dropped (stats relay) + int (length calls)"
      using publish_calls_all_dropped [OF _ _ run] c by (simp add: run)
  qed
qed

theorem dropped_reading_never_forwarded_witness:
  "fst (should_drop replay_source (network_profile waiting_relay) drop_draws)
   \<and> ''r2'' \<notin> set (sink waiting_relay) \<and> ''r2'' \<notin> snd ` set (reorder_buffer waiting_relay)
   \<and> ''r2'' \<notin> fst ` set [(''r3'', 11 :: real, 11 :: real)]
   \<and> fst (publish replay_source ''r2'' 10 10 waiting_relay drop_draws) = Inr False
   \<and> sink (shutdown (fst (snd (publish_calls replay_source [(''r3'', 11, 11)]
              (fst (snd (publish replay_source ''r2'' 10 10 waiting_relay drop_draws)))
              (snd (snd (publish replay_source ''r2'' 10 10 waiting_relay drop_draws)))))))
       = [''r3'', ''r1'']
   \<and> ''r2'' \<notin> set (sink (shutdown (fst (snd (publish_calls replay_source [(''r3'', 11, 11)]
              (fst (snd (publish replay_source ''r2'' 10 10 waiting_relay drop_draws)))
              (snd (snd (publish replay_source ''r2'' 10 10 waiting_relay drop_draws))))))))
   \<and> random_in_range replay_source \<and> 1 \<le> drop_prob (network_profile lossy_relay)
   \<and> fst (publish_calls replay_source three_calls lossy_relay [999, 0, 500])
       = Inr [False, False, False]
   \<and> sink (fst (snd (publish_calls replay_source three_calls lossy_relay [999, 0, 500]))) = []"
proof -
  note at_call = dropped_reading_never_forwarded [of replay_source waiting_relay drop_draws "''r2''" 10 10]
  note at_relay = dropped_reading_never_forwarded [of replay_source lossy_relay drop_draws "''r2''" 10 10]
  have drop: "fst (should_drop replay_source (network_profile waiting_relay) drop_draws)"
    by (simp add: waiting_relay_def drop_draws_def relay_simps)
  have new: "''r2'' \<notin> set (sink waiting_relay)" "''r2'' \<notin> snd ` set (reorder_buffer waiting_relay)"
    by (simp_all add: waiting_relay_def relay_simps)
  have other: "''r2'' \<notin> fst ` set [(''r3'', 11 :: real, 11 :: real)]"
    by simp
  obtain result relay1 g1 where
    p: "publish replay_source ''r2'' 10 10 waiting_relay drop_draws = (result, relay1, g1)"
    by (cases "publish replay_source ''r2'' 10 10 waiting_relay drop_draws") auto
  obtain results relay2 g2 where
    q: "publish_calls replay_source [(''r3'', 11, 11)] relay1 g1 = (results, relay2, g2)"
    by (cases "publish_calls replay_source [(''r3'', 11, 11)] relay1 g1") auto
  have ev: "sink (shutdown (fst (snd (publish_calls replay_source [(''r3'', 11, 11)]
              (fst (snd (publish replay_source ''r2'' 10 10 waiting_relay drop_draws)))
              (snd (snd (publish replay_source ''r2'' 10 10 waiting_relay drop_draws)))))))
       = [''r3'', ''r1'']"
    by (simp add: waiting_relay_def drop_draws_def relay_simps)
  have a: "result = Inr False"
    and later: "\<forall>later. ''r2'' \<notin> fst ` set later \<longrightarrow>
                   (case publish_calls replay_source later relay1 g1 of
                      (results, relay2, g2) \<Rightarrow>
                        ''r2'' \<notin> set (sink relay2) \<and> ''r2'' \<notin> set (sink (shutdown relay2)))"
    using at_call drop new by (simp_all add: p)
  have b: "''r2'' \<notin> set (sink (shutdown relay2))"
    using later [rule_format, OF other] unfolding q by simp
  have sure: "random_in_range replay_source" "1 \<le> drop_prob (network_profile lossy_relay)"
    by (simp_all add: replay_random_in_range lossy_relay_def GatewayRelay_init_def)
  from at_relay [THEN conjunct2, THEN mp, OF conjI [OF sure], rule_format,
      of three_calls "[999, 0, 500]"]
  have c: "fst (publish_calls replay_source three_calls lossy_relay [999, 0, 500])
       = Inr [False, False, False]
   \<and> sink (fst (snd (publish_calls replay_source three_calls lossy_relay [999, 0, 500]))) = []"
    by (auto simp: three_calls_def lossy_relay_def GatewayRelay_init_def numeral_eq_Suc
        split: prod.splits)
  show ?thesis
    using drop new other a b c sure ev by (simp add: p q)
qed

subsection \<open>Loading a configuration\<close>

lemmas load_simps = from_yaml_def from_config_def dict_get_def preset_intervals_def
  no_pole_def no_sampling_def no_voltage_def no_power_def no_reactive_def no_frequency_def
  no_electrical_def no_demo_def no_logging_def inverted_latency_def inverted_depth_doc_def

lemmas sim_simps = simulator_run_def MeterSimulator_init_def generate_batch_def frozen_clock_def
  format_04d_def

lemma from_yaml_empty:
  "from_yaml \<lparr> y_pole = None, y_sampling = None, y_electrical = None, y_demo = None, y_logging = None \<rparr>
     = default_config"
  by (simp add: load_simps default_config_def)

lemma get_latency_ms_empty_range:
  assumes "randint_in_range R" and "latency_ms_max profile < latency_ms_min profile"
  shows "fst (get_latency_ms R profile g) = Inl ValueError"
proof -
  have "fst (rnd_randint R (latency_ms_min profile) (latency_ms_max profile) g) = Inl ValueError"
    using assms unfolding randint_in_range_def by (metis (full_types))
  then show ?thesis
    by (simp add: get_latency_ms_def Let_def split_def)
qed

text \<open>
  What the two loaders store: each bound is the value the document supplies for it, or the
  default of its key, and depends on nothing else.
\<close>

lemma from_yaml_bounds:
  assumes "electrical = dict_get (y_electrical doc) no_electrical"
    and "voltage = dict_get (y_voltage electrical) no_voltage"
    and "pwr = dict_get (y_power electrical) no_power"
    and "reactive = dict_get (y_reactive electrical) no_reactive"
  shows "sag_depth_min (from_yaml doc) = dict_get (y_sag_depth_min voltage) 10
         \<and> sag_depth_max (from_yaml doc) = dict_get (y_sag_depth_max voltage) 30
         \<and> sag_duration_min (from_yaml doc) = dict_get (y_sag_duration_min voltage) 3
         \<and> sag_duration_max (from_yaml doc) = dict_get (y_sag_duration_max voltage) 15
         \<and> meter_factor_min (from_yaml doc) = dict_get (y_meter_factor_min pwr) (7 / 10)
         \<and> meter_factor_max (from_yaml doc) = dict_get (y_meter_factor_max pwr) (3 / 2)
         \<and> pf_min (from_yaml doc) = dict_get (y_power_factor_min reactive) (85 / 100)
         \<and> pf_max (from_yaml doc) = dict_get (y_power_factor_max reactive) (99 / 100)"
  by (simp add: assms from_yaml_def Let_def)

lemma from_config_bounds:
  "latency_ms_min (from_config nm section) = dict_get (y_latency_ms_min section) 20
   \<and> latency_ms_max (from_config nm section) = dict_get (y_latency_ms_max section) 100
   \<and> jitter_ms (from_config nm section) = dict_get (y_jitter_ms section) 30"
  by (simp add: from_config_def)

text \<open>
  C9, as the code has it. Loading does not check a range. \<^verbatim>\<open>from_yaml\<close> stores the
  bounds of the sag depth, the sag duration, the meter factor and the power factor, and
  \<^verbatim>\<open>from_config\<close> those of the latency and the jitter, each as the document supplies
  it (or as the default of its key), whether or not the upper bound is below the lower
  one. An inverted latency range shows only while readings are relayed: a call of
  \<^verbatim>\<open>publish\<close> that is not dropped raises the ValueError of \<^verbatim>\<open>random.randint\<close>,
  after it has counted the reading as received, and a call that is dropped returns as
  usual.
\<close>

theorem ranges_are_not_checked_at_load:
  assumes "randint_in_range R"
    and "y_latency_ms_min section = Some lo" and "y_latency_ms_max section = Some hi" and "hi < lo"
    and "network_profile relay = from_config nm section"
    and "electrical = dict_get (y_electrical doc) no_electrical"
    and "voltage = dict_get (y_voltage electrical) no_voltage"
    and "pwr = dict_get (y_power electrical) no_power"
    and "reactive = dict_get (y_reactive electrical) no_reactive"
  shows "latency_ms_min (from_config nm section) = lo \<and> latency_ms_max (from_config nm section) = hi
         \<and> jitter_ms (from_config nm section) = dict_get (y_jitter_ms section) 30
         \<and> sag_depth_min (from_yaml doc) = dict_get (y_sag_depth_min voltage) 10
         \<and> sag_depth_max (from_yaml doc) = dict_get (y_sag_depth_max voltage) 30
         \<and> sag_duration_min (from_yaml doc) = dict_get (y_sag_duration_min voltage) 3
         \<and> sag_duration_max (from_yaml doc) = dict_get (y_sag_duration_max voltage) 15
         \<and> meter_factor_min (from_yaml doc) = dict_get (y_meter_factor_min pwr) (7 / 10)
         \<and> meter_factor_max (from_yaml doc) = dict_get (y_meter_factor_max pwr) (3 / 2)
         \<and> pf_min (from_yaml doc) = dict_get (y_power_factor_min reactive) (85 / 100)
         \<and> pf_max (from_yaml doc) = dict_get (y_power_factor_max reactive) (99 / 100)
         \<and> (case publish R message t_append t_drain relay g of
               (result, relay1, g1) \<Rightarrow>
                 result = (if fst (should_drop R (network_profile relay) g)
                           then Inr False else Inl ValueError)
                 \<and> messages_received (stats relay1) = messages_received (stats relay) + 1
                 \<and> sink relay1 = sink relay \<and> reorder_buffer relay1 = reorder_buffer relay)"
proof -
  have stored: "latency_ms_min (from_config nm section) = lo"
    "latency_ms_max (from_config nm section) = hi"
    using assms(2,3) by (simp_all add: from_config_def dict_get_def)
  then have empty: "latency_ms_max (network_profile relay) < latency_ms_min (network_profile relay)"
    using assms(4,5) by simp
  obtain result relay1 g1 where p: "publish R message t_append t_drain relay g = (result, relay1, g1)"
    by (cases "publish R message t_append t_drain relay g") auto
  have "result = (if fst (should_drop R (network_profile relay) g) then Inr False else Inl ValueError)
        \<and> messages_received (stats relay1) = messages_received (stats relay) + 1
        \<and> sink relay1 = sink relay \<and> reorder_buffer relay1 = reorder_buffer relay"
  proof (cases "fst (should_drop R (network_profile relay) g)")
    case True
    then show ?thesis
      using publish_dropped_fields [OF True p] by simp
  next
    case False
    note e = get_latency_ms_empty_range [OF assms(1) empty,
        of "snd (should_drop R (network_profile relay) g)"]
    show ?thesis
      using p False unfolding publish_raised [OF False e]
      by (auto simp: record_received_def)
  qed
  then show ?thesis
    using stored from_yaml_bounds [OF assms(6-9)] from_config_bounds [of nm "section"]
    by (simp add: p)
qed

theorem ranges_are_not_checked_at_load_witness:
  "randint_in_range replay_source
   \<and> y_latency_ms_min inverted_latency = Some 100 \<and> y_latency_ms_max inverted_latency = Some 20
   \<and> (20 :: int) < 100
   \<and> latency_ms_min (from_config ''lte_m'' inverted_latency) = 100
   \<and> latency_ms_max (from_config ''lte_m'' inverted_latency) = 20
   \<and> jitter_ms (from_config ''lte_m'' inverted_latency) = 30
   \<and> sag_depth_min (from_yaml inverted_depth_doc) = 30
   \<and> sag_depth_max (from_yaml inverted_depth_doc) = 10
   \<and> sag_duration_min (from_yaml inverted_depth_doc) = 3
   \<and> pf_max (from_yaml inverted_depth_doc) = 99 / 100
   \<and> fst (publish replay_source ''r1'' 0 0
            (GatewayRelay_init ''demo'' ''ami-meter-data'' (from_config ''lte_m'' inverted_latency) 0)
            [999]) = Inl ValueError
   \<and> fst (publish replay_source ''r1'' 0 0
            (GatewayRelay_init ''demo'' ''ami-meter-data'' (from_config ''lte_m'' inverted_latency) 0)
            [0]) = Inr False"
proof -
  define relay :: "string GatewayRelay" where
    "relay = GatewayRelay_init ''demo'' ''ami-meter-data'' (from_config ''lte_m'' inverted_latency) 0"
  have a: "y_latency_ms_min inverted_latency = Some 100" "y_latency_ms_max inverted_latency = Some 20"
    by (simp_all add: inverted_latency_def)
  have b: "network_profile relay = from_config ''lte_m'' inverted_latency"
    by (simp add: relay_def GatewayRelay_init_def)
  have d: "\<not> fst (should_drop replay_source (network_profile relay) [999])"
    "fst (should_drop replay_source (network_profile relay) [0])"
    by (simp_all add: relay_def relay_simps load_simps)
  note t = ranges_are_not_checked_at_load [OF replay_randint_in_range a _ b refl refl refl refl,
      where message = "''r1''" and t_append = 0 and t_drain = 0 and doc = inverted_depth_doc]
  have "fst (publish replay_source ''r1'' 0 0 relay [999]) = Inl ValueError"
    using t [where g = "[999]"] d by (auto split: prod.splits)
  moreover have "fst (publish replay_source ''r1'' 0 0 relay [0]) = Inr False"
    using t [where g = "[0]"] d by (auto split: prod.splits)
  moreover have "latency_ms_min (from_config ''lte_m'' inverted_latency) = 100
     \<and> latency_ms_max (from_config ''lte_m'' inverted_latency) = 20
     \<and> jitter_ms (from_config ''lte_m'' inverted_latency) = 30
     \<and> sag_depth_min (from_yaml inverted_depth_doc) = 30
     \<and> sag_depth_max (from_yaml inverted_depth_doc) = 10
     \<and> sag_duration_min (from_yaml inverted_depth_doc) = 3
     \<and> pf_max (from_yaml inverted_depth_doc) = 99 / 100"
    using t [where g = "[0]"]
    by (simp add: inverted_depth_doc_def inverted_latency_def dict_get_def no_electrical_def
        no_voltage_def no_power_def no_reactive_def)
  ultimately show ?thesis
    using replay_randint_in_range a by (simp add: relay_def)
qed

lemma two_meters: "[0 ..< 2] = [0, 1]"
  by (simp add: numeral_2_eq_2)

lemma three_zeros: "replicate 3 c = [c, c, c]"
  by (simp add: numeral_3_eq_3)

text \<open>
  As C9 is worded it fails. A document with \<open>sag_depth_max < sag_depth_min\<close> loads, the
  simulator is built from it and yields the readings of its two meters; a profile with
  \<open>latency_ms_max < latency_ms_min\<close> loads, and the relay built from it takes a reading
  and drops it, as it would with any profile.
\<close>

theorem invalid_ranges_load_counterexample:
  "sag_depth_max (from_yaml inverted_depth_doc) \<le> sag_depth_min (from_yaml inverted_depth_doc)
   \<and> map_sum id (map reading_meter_id)
        (simulator_run replay_source (from_yaml inverted_depth_doc) (Some 42) 0 [] [(noon, frozen_clock)])
      = Inr [''m_pole_A_0000'', ''m_pole_A_0001'']
   \<and> latency_ms_max (from_config ''lte_m'' inverted_latency)
        < latency_ms_min (from_config ''lte_m'' inverted_latency)
   \<and> fst (publish replay_source ''r1'' 0 0
            (GatewayRelay_init ''demo'' ''ami-meter-data'' (from_config ''lte_m'' inverted_latency) 0)
            [0]) = Inr False"
  by (simp add: load_simps sim_simps run_simps relay_simps two_meters three_zeros)

subsection \<open>Reproducible runs\<close>

text \<open>Without a forced sag the clock is never read.\<close>

lemma should_start_sag_clock:
  assumes "force_sag_interval cfg \<le> 0"
  shows "should_start_sag R cfg last_t meter now g
           = (fst (should_start_sag R cfg 0 meter 0 g), last_t,
              snd (snd (should_start_sag R cfg 0 meter 0 g)))"
  using assms by (simp add: should_start_sag_def Let_def split_def)

lemma update_sag_state_clock:
  assumes "force_sag_interval cfg \<le> 0"
  shows "update_sag_state R cfg last_t meter now g
           = (case update_sag_state R cfg 0 meter 0 g of
                Inl e \<Rightarrow> Inl e
              | Inr (adj, meter1, last1, g1) \<Rightarrow> Inr (adj, meter1, last_t, g1))"
  unfolding update_sag_state_def should_start_sag_clock [OF assms, of R last_t meter now]
  by (simp add: Let_def split_def split: sum.splits)

lemma reading_values_clock:
  assumes "force_sag_interval cfg \<le> 0"
  shows "reading_values R cfg last_t meter timestamp now g
           = (case reading_values R cfg 0 meter timestamp 0 g of
                Inl e \<Rightarrow> Inl e
              | Inr (v, meter2, last1, g4) \<Rightarrow> Inr (v, meter2, last_t, g4))"
  unfolding reading_values_def update_sag_state_clock [OF assms, of R last_t meter now]
  by (simp add: Let_def split_def split: sum.splits)

lemma generate_reading_clock:
  assumes "force_sag_interval cfg \<le> 0"
  shows "generate_reading R cfg last_t meter timestamp now g
           = (case generate_reading R cfg 0 meter timestamp 0 g of
                Inl e \<Rightarrow> Inl e
              | Inr (r, meter2, last1, g4) \<Rightarrow> Inr (r, meter2, last_t, g4))"
  unfolding generate_reading_def reading_values_clock [OF assms, of R last_t meter timestamp now]
  by (simp split: sum.splits)

lemma batch_loop_clock:
  assumes "force_sag_interval cfg \<le> 0"
  shows "batch_loop R cfg timestamp clock i last_t ms g
           = (case batch_loop R cfg timestamp frozen_clock 0 0 ms g of
                Inl e \<Rightarrow> Inl e
              | Inr (readings, meters1, last1, g1) \<Rightarrow> Inr (readings, meters1, last_t, g1))"
proof (induction ms arbitrary: i last_t g clock)
  case Nil
  then show ?case by simp
next
  case (Cons meter rest)
  note here = generate_reading_clock [OF assms, of R last_t meter timestamp "clock i" g]
  note there = generate_reading_clock [OF assms, of R 0 meter timestamp "frozen_clock 0" g]
  show ?case
  proof (cases "generate_reading R cfg 0 meter timestamp 0 g")
    case (Inl e)
    then show ?thesis
      using here there by simp
  next
    case (Inr x)
    obtain r meter1 l1 g1 where x: "x = (r, meter1, l1, g1)"
      by (cases x) auto
    have a: "generate_reading R cfg last_t meter timestamp (clock i) g = Inr (r, meter1, last_t, g1)"
      and b: "generate_reading R cfg 0 meter timestamp (frozen_clock 0) g = Inr (r, meter1, 0, g1)"
      using here there Inr x by simp_all
    show ?thesis
      using Cons.IH [of clock "Suc i" last_t g1] Cons.IH [of frozen_clock "Suc 0" 0 g1]
      by (simp add: a b split: sum.splits)
  qed
qed

lemma generate_batch_clock:
  assumes "force_sag_interval (config sim) \<le> 0"
    and "config sim' = config sim" and "meters sim' = meters sim"
  shows "shown (generate_batch R sim timestamp clock g)
           = shown (generate_batch R sim' timestamp clock' g)"
  unfolding generate_batch_def assms(2,3)
    batch_loop_clock [OF assms(1), of R timestamp clock 0 "last_force_sag_time sim" "meters sim" g]
    batch_loop_clock [OF assms(1), of R timestamp clock' 0 "last_force_sag_time sim'" "meters sim" g]
  by (simp add: shown_def assms(2,3) split: sum.splits)

lemma shown_Inr:
  "shown x = Inr (readings, cfg, ms, g) \<Longrightarrow>
     \<exists>sim. x = Inr (readings, sim, g) \<and> config sim = cfg \<and> meters sim = ms"
  by (auto simp: shown_def split: sum.splits)

lemma shown_Inl: "shown x = Inl e \<Longrightarrow> x = Inl e"
  by (auto simp: shown_def split: sum.splits)

lemma generate_batch_config:
  "generate_batch R sim timestamp clock g = Inr (readings, sim1, g1) \<Longrightarrow> config sim1 = config sim"
  by (auto simp: generate_batch_def split: sum.splits)

lemma stream_readings_raised:
  "generate_batch R sim timestamp clock g = Inl e
   \<Longrightarrow> stream_readings R sim ((timestamp, clock) # rest) g = Inl e"
  by simp

lemma stream_readings_next:
  "generate_batch R sim timestamp clock g = Inr (readings, sim1, g1)
   \<Longrightarrow> stream_readings R sim ((timestamp, clock) # rest) g
       = (case stream_readings R sim1 rest g1 of
            Inl e \<Rightarrow> Inl e
          | Inr (later, sim2, g2) \<Rightarrow> Inr (readings @ later, sim2, g2))"
  by simp

lemma shown_append:
  assumes "shown x = shown y"
  shows "shown (case x of Inl e \<Rightarrow> Inl e
                | Inr (later, sim2, g2) \<Rightarrow> Inr (readings @ later, sim2, g2))
         = shown (case y of Inl e \<Rightarrow> Inl e
                  | Inr (later, sim2, g2) \<Rightarrow> Inr (readings @ later, sim2, g2))"
  using assms by (cases x; cases y) (auto simp: shown_def)

lemma stream_readings_clock:
  "force_sag_interval (config sim) \<le> 0 \<Longrightarrow> config sim' = config sim \<Longrightarrow> meters sim' = meters sim
   \<Longrightarrow> map fst cycles = map fst cycles'
   \<Longrightarrow> shown (stream_readings R sim cycles g) = shown (stream_readings R sim' cycles' g)"
proof (induction cycles arbitrary: cycles' sim sim' g)
  case Nil
  then show ?case by (simp add: shown_def)
next
  case (Cons cycle rest)
  obtain timestamp clock where cycle: "cycle = (timestamp, clock)"
    by (cases cycle) auto
  obtain clock' rest' where cycles': "cycles' = (timestamp, clock') # rest'"
    and rest: "map fst rest = map fst rest'"
    using Cons.prems(4) by (cases cycles') (auto simp: cycle)
  note first = generate_batch_clock [OF Cons.prems(1-3), of R timestamp clock g clock']
  show ?case
  proof (cases "generate_batch R sim timestamp clock g")
    case (Inl e)
    then have "shown (generate_batch R sim' timestamp clock' g) = Inl e"
      using first by (simp add: shown_def)
    then have "generate_batch R sim' timestamp clock' g = Inl e"
      by (rule shown_Inl)
    then show ?thesis
      unfolding cycle cycles'
      by (simp only: stream_readings_raised [OF Inl] stream_readings_raised)
  next
    case (Inr x)
    obtain readings sim1 g1 where x: "x = (readings, sim1, g1)"
      by (cases x) auto
    have "shown (generate_batch R sim' timestamp clock' g)
            = Inr (readings, config sim1, meters sim1, g1)"
      using first Inr x by (simp add: shown_def)
    from shown_Inr [OF this] obtain sim1' where
      other: "generate_batch R sim' timestamp clock' g = Inr (readings, sim1', g1)"
      and same: "config sim1' = config sim1" "meters sim1' = meters sim1"
      by blast
    have force: "force_sag_interval (config sim1) \<le> 0"
      using generate_batch_config [OF Inr [unfolded x]] Cons.prems(1) by simp
    note later = Cons.IH [OF force same rest, of g1]
    show ?thesis
      unfolding cycle cycles'
      by (simp only: stream_readings_next [OF Inr [unfolded x]] stream_readings_next [OF other]
          shown_append [OF later])
  qed
qed

lemma one_meter: "[0 ..< nat 1] = [0]"
  by simp

lemmas day_simps = one_meter_config_def forced_sag_config_def evening_def early_clock_def
  late_clock_def one_meter three_zeros

lemma simulator_run_seeded:
  "simulator_run R cfg (Some s) now g0 cycles
     = (case stream_readings R
              \<lparr> config = cfg, meters = fst (make_meters R cfg [0 ..< nat (num_meters cfg)] (rnd_seed R s)),
                last_force_sag_time = now, readings_since_sag = 0 \<rparr>
              cycles (snd (make_meters R cfg [0 ..< nat (num_meters cfg)] (rnd_seed R s))) of
          Inl e \<Rightarrow> Inl e
        | Inr (readings, sim1, g1) \<Rightarrow> Inr readings)"
  by (simp add: simulator_run_def MeterSimulator_init_def Let_def split_def)

lemma shown_readings:
  assumes "shown x = shown y"
  shows "(case x of Inl e \<Rightarrow> Inl e | Inr (readings, sim1, g1) \<Rightarrow> Inr readings)
         = (case y of Inl e \<Rightarrow> Inl e | Inr (readings, sim1, g1) \<Rightarrow> Inr readings)"
  using assms by (cases x; cases y) (auto simp: shown_def)

text \<open>
  C7, as the code has it. With a seed, a run does not depend on the state the random
  module was in before. If moreover no forced sag is configured, two runs with the same
  seed, the same configuration and the same timestamps yield the same readings (or raise
  the same exception), whatever their clocks read at construction and during the cycles:
  seed, configuration and timestamps determine the output.
\<close>

theorem seed_and_timestamps_determine_readings:
  "simulator_run R cfg (Some s) now g0 cycles = simulator_run R cfg (Some s) now g0' cycles
   \<and> (force_sag_interval cfg \<le> 0 \<and> map fst cycles = map fst cycles' \<longrightarrow>
        simulator_run R cfg (Some s) now g0 cycles = simulator_run R cfg (Some s) now' g0' cycles')"
proof (intro conjI impI)
  show "simulator_run R cfg (Some s) now g0 cycles = simulator_run R cfg (Some s) now g0' cycles"
    by (simp only: simulator_run_seeded)
next
  assume a: "force_sag_interval cfg \<le> 0 \<and> map fst cycles = map fst cycles'"
  define ms where "ms = make_meters R cfg [0 ..< nat (num_meters cfg)] (rnd_seed R s)"
  define sim where "sim = \<lparr> config = cfg, meters = fst ms, last_force_sag_time = now,
                             readings_since_sag = 0 \<rparr>"
  define sim' where "sim' = \<lparr> config = cfg, meters = fst ms, last_force_sag_time = now',
                               readings_since_sag = 0 \<rparr>"
  have "force_sag_interval (config sim) \<le> 0" "config sim' = config sim" "meters sim' = meters sim"
    using a by (simp_all add: sim_def sim'_def)
  then have "shown (stream_readings R sim cycles (snd ms))
               = shown (stream_readings R sim' cycles' (snd ms))"
    using a by (intro stream_readings_clock) simp_all
  then show "simulator_run R cfg (Some s) now g0 cycles = simulator_run R cfg (Some s) now' g0' cycles'"
    unfolding simulator_run_seeded ms_def [symmetric] sim_def [symmetric] sim'_def [symmetric]
    by (rule shown_readings)
qed

theorem seed_and_timestamps_determine_readings_witness:
  "force_sag_interval one_meter_config \<le> 0
   \<and> map fst [(noon, frozen_clock)] = map fst [(noon, late_clock)]
   \<and> simulator_run replay_source one_meter_config (Some 42) 0 [] [(noon, frozen_clock)]
       = simulator_run replay_source one_meter_config (Some 42) 100 [7, 7] [(noon, late_clock)]
   \<and> map_sum id (map voltage_v)
        (simulator_run replay_source one_meter_config (Some 42) 100 [7, 7] [(noon, late_clock)])
       = Inr [23863 / 100]"
proof -
  have a: "force_sag_interval one_meter_config \<le> 0"
    by (simp add: one_meter_config_def default_config_def)
  have b: "map fst [(noon, frozen_clock)] = map fst [(noon, late_clock)]"
    by simp
  have c: "simulator_run replay_source one_meter_config (Some 42) 0 [] [(noon, frozen_clock)]
       = simulator_run replay_source one_meter_config (Some 42) 100 [7, 7] [(noon, late_clock)]"
    using seed_and_timestamps_determine_readings
      [where R = replay_source and cfg = one_meter_config and s = 42 and now = 0 and ?g0.0 = "[]"
        and cycles = "[(noon, frozen_clock)]" and cycles' = "[(noon, late_clock)]"
        and now' = 100 and g0' = "[7, 7]"] a b
    by blast
  have "map_sum id (map voltage_v)
        (simulator_run replay_source one_meter_config (Some 42) 0 [] [(noon, frozen_clock)])
       = Inr [23863 / 100]"
    by (simp add: day_simps sim_simps run_simps)
  then show ?thesis
    using a b c by simp
qed

text \<open>
  As C7 is worded, with the seed and the configuration as all that two runs share, it
  fails. The timestamp of a reading is the wall clock of its cycle, and the load curve
  follows it: the same seed and configuration give other readings at noon than in the
  evening. And when forced sags are configured, the clock decides whether one starts:
  with the same seed, configuration and timestamps, a run whose clock reads 10 and one
  whose clock reads 100 differ in the voltage.
\<close>

theorem wall_clock_counterexample:
  "map_sum id (map event_ts)
     (simulator_run replay_source one_meter_config (Some 42) 0 [] [(noon, frozen_clock)]) = Inr [noon]
   \<and> map_sum id (map power_kw)
       (simulator_run replay_source one_meter_config (Some 42) 0 [] [(noon, frozen_clock)])
      = Inr [683 / 1000]
   \<and> map_sum id (map event_ts)
       (simulator_run replay_source one_meter_config (Some 42) 0 [] [(evening, frozen_clock)])
      = Inr [evening]
   \<and> map_sum id (map power_kw)
       (simulator_run replay_source one_meter_config (Some 42) 0 [] [(evening, frozen_clock)])
      = Inr [2733 / 1000]
   \<and> map_sum id (map voltage_v)
       (simulator_run replay_source forced_sag_config (Some 42) 0 [] [(noon, early_clock)])
      = Inr [23863 / 100]
   \<and> map_sum id (map voltage_v)
       (simulator_run replay_source forced_sag_config (Some 42) 0 [] [(noon, late_clock)])
      = Inr [22779 / 100]"
  by (simp add: day_simps sim_simps run_simps)

end
